theory Spec2Isabelle
  imports Complex_Main "HOL-Library.Sublist"
begin

section \<open>Configuration and clock\<close>

text \<open>
  The module constant \<^verbatim>\<open>DELETE_AFTER_SECONDS = 10 * 60\<close>.
\<close>

definition DELETE_AFTER_SECONDS :: int where
  "DELETE_AFTER_SECONDS = 10 * 60"

text \<open>The module constant \<^verbatim>\<open>DB_FILE = "urls.db"\<close>, a path relative to the working directory.\<close>

definition DB_FILE :: string where
  "DB_FILE = ''urls.db''"

text \<open>
  \<^verbatim>\<open>time.time()\<close> is a clock reading in seconds with a fractional part; it is a
  parameter of every operation that reads the clock and is modelled as a real number.
  \<^verbatim>\<open>int(x)\<close> on a float truncates towards zero.
\<close>

definition py_int :: "real \<Rightarrow> int" where
  "py_int x = (if 0 \<le> x then \<lfloor>x\<rfloor> else \<lceil>x\<rceil>)"

section \<open>The table \<^verbatim>\<open>urls\<close>\<close>

text \<open>
  One row of \<^verbatim>\<open>urls (code TEXT PRIMARY KEY, target TEXT, created_at INTEGER,
  hits INTEGER DEFAULT 0)\<close>. The table is the list of its rows in insertion order.
\<close>

record row =
  code :: string
  target :: string
  created_at :: int
  hits :: int

type_synonym table = "row list"

text \<open>\<^verbatim>\<open>CREATE TABLE IF NOT EXISTS\<close> on a fresh database file: the empty table.\<close>

definition init_db :: table where
  "init_db = []"

text \<open>The primary key: no two rows carry the same code.\<close>

definition primary_key :: "table \<Rightarrow> bool" where
  "primary_key tb = distinct (map code tb)"

text \<open>
  \<^verbatim>\<open>INSERT OR REPLACE INTO urls (code, target, created_at, hits) VALUES (?,?,?,0)\<close>
  with \<^verbatim>\<open>(code, target, int(time.time()))\<close>, as it acts on the table: any row in conflict
  on the primary key is deleted, then the new row is inserted.
\<close>

definition save_mapping :: "real \<Rightarrow> string \<Rightarrow> string \<Rightarrow> table \<Rightarrow> table" where
  "save_mapping clock c tgt tb =
     filter (\<lambda>r. code r \<noteq> c) tb @
       [\<lparr>code = c, target = tgt, created_at = py_int clock, hits = 0\<rparr>]"

text \<open>
  \<^verbatim>\<open>SELECT code, target, created_at, hits FROM urls WHERE code = ?\<close> followed by
  \<^verbatim>\<open>fetchone()\<close>, as it reads the table: the first matching row, or \<^verbatim>\<open>None\<close>.
\<close>

definition get_row :: "table \<Rightarrow> string \<Rightarrow> row option" where
  "get_row tb c = find (\<lambda>r. code r = c) tb"

text \<open>
  \<^verbatim>\<open>seconds_left(created_at) = max(0, DELETE_AFTER_SECONDS - (int(time.time()) - created_at))\<close>.
\<close>

definition seconds_left :: "real \<Rightarrow> int \<Rightarrow> int" where
  "seconds_left clock created = max 0 (DELETE_AFTER_SECONDS - (py_int clock - created))"

section \<open>Strings and paths\<close>

text \<open>
  Strings are lists of characters. \<^verbatim>\<open>s.startswith(p)\<close> is the prefix test.
\<close>

definition startswith :: "string \<Rightarrow> string \<Rightarrow> bool" where
  "startswith s p = prefix p s"

text \<open>\<^verbatim>\<open>s.replace(old, new, 1)\<close>: the leftmost occurrence of \<^verbatim>\<open>old\<close> is replaced.\<close>

fun str_replace1 :: "string \<Rightarrow> string \<Rightarrow> string \<Rightarrow> string" where
  "str_replace1 old new [] = (if old = [] then new else [])"
| "str_replace1 old new (c # cs) =
     (if prefix old (c # cs) then new @ drop (length old) (c # cs)
      else c # str_replace1 old new cs)"

text \<open>
  \<^verbatim>\<open>os.path.join(a, b)\<close> on a POSIX system: an absolute second component replaces the
  first, otherwise the components are joined by one separator.
\<close>

definition os_path_join :: "string \<Rightarrow> string \<Rightarrow> string" where
  "os_path_join a b =
     (if prefix ''/'' b then b
      else if a = [] \<or> suffix ''/'' a then a @ b
      else a @ ''/'' @ b)"

definition UPLOAD_FOLDER :: string where
  "UPLOAD_FOLDER = os_path_join ''static'' ''uploads''"

section \<open>The file tree and the state of the application\<close>

text \<open>
  The application runs on a POSIX system, in a file tree without symbolic links whose
  directories it never changes after startup. It keeps its table in the file
  \<^verbatim>\<open>urls.db\<close> of the working directory, beside the files of the upload folder. The state:
  \<^item> \<open>store\<close>: the table \<^verbatim>\<open>urls\<close> of the database file, \<open>None\<close> once that file has been
    removed or overwritten; a connection made then finds a database without the table,
    and every statement on it raises;
  \<^item> \<open>locate\<close>: where a path leads. Two paths lead to the same place exactly when they
    name the same file (\<^verbatim>\<open>a/../b\<close> and \<^verbatim>\<open>b\<close>, say); a path leads nowhere (\<open>None\<close>) when a
    component of it is missing or is no directory, or when it names a directory;
  \<^item> \<open>files\<close>: the places that hold a regular file, the database file and its rollback
    journal apart;
  \<^item> \<open>remove_calls\<close>: the trace of the calls of \<^verbatim>\<open>os.remove\<close> made so far, oldest first,
    each by the place its argument leads to.
\<close>

record world =
  store :: "table option"
  locate :: "string \<Rightarrow> string option"
  files :: "string set"
  remove_calls :: "string list"

text \<open>The rows of the table; none when the table is gone.\<close>

definition db :: "world \<Rightarrow> table" where
  "db w = (case store w of None \<Rightarrow> [] | Some tb \<Rightarrow> tb)"

datatype py_error = OSError | OperationalError

text \<open>
  What a connection that runs several statements has done to the rollback journal
  \<^verbatim>\<open>urls.db-journal\<close>. SQLite creates the journal beside the database file when the first
  writing statement opens the transaction, and deletes it at the commit.
\<close>

datatype journal = No_journal | Journal | Journal_removed

text \<open>
  \<^verbatim>\<open>os.path.isfile(path)\<close>, asked on a connection whose journal is in the state \<open>j\<close>.
\<close>

definition os_path_isfile :: "journal \<Rightarrow> world \<Rightarrow> string \<Rightarrow> bool" where
  "os_path_isfile j w path =
     (case locate w path of
        None \<Rightarrow> False
      | Some q \<Rightarrow>
          if Some q = locate w DB_FILE then store w \<noteq> None
          else if Some q = locate w (DB_FILE @ ''-journal'') then j = Journal
          else q \<in> files w)"

text \<open>
  \<^verbatim>\<open>os.remove(path)\<close>. It raises when the path names no file, and it may raise for a
  reason outside the program (permissions, a file in use): the oracle \<open>fails\<close> says for
  which places it does. Removing the database file takes the table with it; removing the
  journal leaves the open transaction without one.
\<close>

definition os_remove ::
  "(string \<Rightarrow> bool) \<Rightarrow> string \<Rightarrow> journal \<Rightarrow> world \<Rightarrow> py_error + journal \<times> world" where
  "os_remove fails path j w =
     (case locate w path of
        None \<Rightarrow> Inl OSError
      | Some q \<Rightarrow>
          if fails q \<or> \<not> os_path_isfile j w path then Inl OSError
          else if Some q = locate w DB_FILE then Inr (j, w\<lparr>store := None\<rparr>)
          else if Some q = locate w (DB_FILE @ ''-journal'') then Inr (Journal_removed, w)
          else Inr (j, w\<lparr>files := files w - {q}\<rparr>))"

section \<open>The cleanup daemon\<close>

text \<open>
  \<^verbatim>\<open>SELECT code, target FROM urls WHERE ? - created_at > ?\<close> with
  \<^verbatim>\<open>(now, DELETE_AFTER_SECONDS)\<close> and \<^verbatim>\<open>fetchall()\<close>, as it reads the table.
\<close>

definition select_expired :: "int \<Rightarrow> table \<Rightarrow> (string \<times> string) list" where
  "select_expired now tb =
     map (\<lambda>r. (code r, target r)) (filter (\<lambda>r. now - created_at r > DELETE_AFTER_SECONDS) tb)"

text \<open>\<^verbatim>\<open>DELETE FROM urls WHERE code = ?\<close>, as it acts on the table.\<close>

definition delete_row :: "string \<Rightarrow> table \<Rightarrow> table" where
  "delete_row c tb = filter (\<lambda>r. code r \<noteq> c) tb"

text \<open>The path that \<^verbatim>\<open>cleanup\<close> computes for a target that starts with \<^verbatim>\<open>/uploads/\<close>.\<close>

definition artifact_path :: "string \<Rightarrow> string" where
  "artifact_path tgt = os_path_join UPLOAD_FOLDER (str_replace1 ''/uploads/'' [] tgt)"

text \<open>
  The first statement of the body of the \<^verbatim>\<open>for\<close> loop of \<^verbatim>\<open>cleanup\<close>:
  \<^verbatim>\<open>
  if tgt.startswith("/uploads/"):
      path = os.path.join(UPLOAD_FOLDER, tgt.replace("/uploads/", "", 1))
      if os.path.isfile(path):
          try: os.remove(path)
          except Exception: pass
  \<close>
  Every call of \<^verbatim>\<open>os.remove\<close> goes into the trace, whether it raises or not.
\<close>

definition remove_artifact ::
  "(string \<Rightarrow> bool) \<Rightarrow> string \<Rightarrow> journal \<Rightarrow> world \<Rightarrow> journal \<times> world" where
  "remove_artifact fails tgt j w =
     (if startswith tgt ''/uploads/'' then
        (let path = os_path_join UPLOAD_FOLDER (str_replace1 ''/uploads/'' [] tgt) in
         case locate w path of
           None \<Rightarrow> (j, w)
         | Some q \<Rightarrow>
             if os_path_isfile j w path then
               (case os_remove fails path j w of
                  Inl e \<Rightarrow> (j, w\<lparr>remove_calls := remove_calls w @ [q]\<rparr>)
                | Inr (j', w') \<Rightarrow> (j', w'\<lparr>remove_calls := remove_calls w' @ [q]\<rparr>))
             else (j, w))
      else (j, w))"

text \<open>
  \<^verbatim>\<open>conn.execute("DELETE FROM urls WHERE code = ?", (code,))\<close> on the connection of the
  sweep. The first \<^verbatim>\<open>DELETE\<close> opens the write transaction and with it the journal. Once
  the database file has been removed from under the connection, a \<^verbatim>\<open>DELETE\<close> that would
  open the transaction raises (SQLite finds the file gone), and one inside the open
  transaction goes through without effect.
\<close>

definition delete_stmt :: "string \<Rightarrow> journal \<Rightarrow> world \<Rightarrow> py_error + journal \<times> world" where
  "delete_stmt c j w =
     (case store w of
        Some tb \<Rightarrow>
          Inr (if j = No_journal then Journal else j, w\<lparr>store := Some (delete_row c tb)\<rparr>)
      | None \<Rightarrow> if j = No_journal then Inl OperationalError else Inr (j, w))"

text \<open>
  The end of the \<^verbatim>\<open>with sqlite3.connect(DB_FILE) as conn\<close> block: the commit. It raises when
  the journal of the open transaction has been removed; the rows deleted stay deleted.
\<close>

definition commit :: "journal \<Rightarrow> world \<Rightarrow> py_error option \<times> world" where
  "commit j w = (if j = Journal_removed then (Some OperationalError, w) else (None, w))"

text \<open>
  The \<^verbatim>\<open>for code, tgt in expired\<close> loop, the artifact and then the row, followed by the
  commit. An exception ends the loop and leaves \<^verbatim>\<open>cleanup\<close>; the first component of the
  result is that exception, if any.
\<close>

fun cleanup_for ::
  "(string \<Rightarrow> bool) \<Rightarrow> (string \<times> string) list \<Rightarrow> journal \<Rightarrow> world \<Rightarrow> py_error option \<times> world" where
  "cleanup_for fails [] j w = commit j w"
| "cleanup_for fails ((c, tgt) # expired) j w =
     (case remove_artifact fails tgt j w of
        (j1, w1) \<Rightarrow>
          (case delete_stmt c j1 w1 of
             Inl e \<Rightarrow> (Some e, w1)
           | Inr (j2, w2) \<Rightarrow> cleanup_for fails expired j2 w2))"

text \<open>
  One iteration of the \<^verbatim>\<open>while True\<close> loop of \<^verbatim>\<open>cleanup\<close>, up to the sleep. The
  \<^verbatim>\<open>SELECT\<close> raises when the database has no table.
\<close>

definition cleanup_body :: "(string \<Rightarrow> bool) \<Rightarrow> real \<Rightarrow> world \<Rightarrow> py_error option \<times> world" where
  "cleanup_body fails clock w =
     (let now = py_int clock in
      case store w of
        None \<Rightarrow> (Some OperationalError, w)
      | Some tb \<Rightarrow> cleanup_for fails (select_expired now tb) No_journal w)"

text \<open>
  The loop itself never returns unless an iteration raises, which ends the daemon thread.
  It is run here for as many iterations as there are clock readings, each with the
  oracle of its \<^verbatim>\<open>os.remove\<close> calls.
\<close>

fun cleanup :: "((string \<Rightarrow> bool) \<times> real) list \<Rightarrow> world \<Rightarrow> py_error option \<times> world" where
  "cleanup [] w = (None, w)"
| "cleanup ((fails, clock) # ticks) w =
     (case cleanup_body fails clock w of
        (Some e, w') \<Rightarrow> (Some e, w')
      | (None, w') \<Rightarrow> cleanup ticks w')"

section \<open>The code generator\<close>

definition ascii_lowercase :: string where
  "ascii_lowercase = ''abcdefghijklmnopqrstuvwxyz''"

definition ascii_uppercase :: string where
  "ascii_uppercase = ''ABCDEFGHIJKLMNOPQRSTUVWXYZ''"

definition ascii_letters :: string where
  "ascii_letters = ascii_lowercase @ ascii_uppercase"

definition digits :: string where
  "digits = ''0123456789''"

text \<open>
  \<^verbatim>\<open>random.choices(population, k=k)\<close> without weights evaluates
  \<^verbatim>\<open>population[floor(random() * n)]\<close> once for each of the \<open>k\<close> positions, \<open>n\<close> the size
  of the population; a \<open>k\<close> below one gives the empty list. The source of randomness is
  the sequence \<open>rnd\<close> of the values that \<^verbatim>\<open>random()\<close> returns, each in the interval from
  0 (included) to 1 (excluded), so that every index is in range.
\<close>

definition random_choices :: "(nat \<Rightarrow> real) \<Rightarrow> 'a list \<Rightarrow> int \<Rightarrow> 'a list" where
  "random_choices rnd population k =
     map (\<lambda>i. population ! nat \<lfloor>rnd i * real (length population)\<rfloor>) [0..<nat k]"

definition generate_code :: "(nat \<Rightarrow> real) \<Rightarrow> int \<Rightarrow> string" where
  "generate_code rnd len = random_choices rnd (ascii_letters @ digits) len"

section \<open>Requests\<close>

text \<open>
  \<^verbatim>\<open>str.strip()\<close> removes leading and trailing whitespace. A character is a code point
  below 256; these are the ones on which \<^verbatim>\<open>str.isspace\<close> holds.
\<close>

definition isspace :: "char \<Rightarrow> bool" where
  "isspace ch = (of_char ch \<in> {9, 10, 11, 12, 13, 28, 29, 30, 31, 32, 133, 160 :: nat})"

definition strip :: "string \<Rightarrow> string" where
  "strip s = rev (dropWhile isspace (rev (dropWhile isspace s)))"

text \<open>\<^verbatim>\<open>str(i)\<close> for an integer, as the f-strings of the module format it.\<close>

fun digits_of :: "nat \<Rightarrow> string" where
  "digits_of n =
     (if n < 10 then [digits ! n] else digits_of (n div 10) @ [digits ! (n mod 10)])"

definition py_str :: "int \<Rightarrow> string" where
  "py_str i = (if i < 0 then ''-'' @ digits_of (nat (- i)) else digits_of (nat i))"

definition PORT :: int where
  "PORT = 5050"

text \<open>
  \<^verbatim>\<open>BASE_URL = f"http://{LOCAL_IP}:{PORT}/"\<close>; the address \<^verbatim>\<open>LOCAL_IP\<close> is resolved from
  the host name at startup and is a parameter here.
\<close>

definition BASE_URL :: "string \<Rightarrow> string" where
  "BASE_URL local_ip = ''http://'' @ local_ip @ '':'' @ py_str PORT @ ''/''"

definition make_short :: "string \<Rightarrow> string \<Rightarrow> string" where
  "make_short local_ip c = BASE_URL local_ip @ c"

text \<open>
  The form of a \<^verbatim>\<open>POST /upload\<close>: the file name of the part \<^verbatim>\<open>file\<close> and the fields
  \<^verbatim>\<open>url\<close> and \<^verbatim>\<open>code\<close>, each \<open>None\<close> when the request does not carry it.
\<close>

record upload_form =
  file_field :: "string option"
  url_field :: "string option"
  code_field :: "string option"

text \<open>The variables the page is rendered with: a short URL or an error message.\<close>

datatype page = Short_url string | Error_message string

text \<open>\<^verbatim>\<open>request.form.get(name, "")\<close>; also the file name of a part that is present.\<close>

definition form_get :: "string option \<Rightarrow> string" where
  "form_get field = (case field of None \<Rightarrow> [] | Some v \<Rightarrow> v)"

text \<open>
  A part \<^verbatim>\<open>file\<close> is true when it is present with a non-empty file name.
\<close>

definition has_file :: "upload_form \<Rightarrow> bool" where
  "has_file form = (case file_field form of None \<Rightarrow> False | Some name \<Rightarrow> name \<noteq> [])"

text \<open>
  \<^verbatim>\<open>code = request.form.get("code", "").strip() or generate_code()\<close>: the stripped field
  when it is not empty, a generated code of the default length 6 otherwise.
\<close>

definition chosen_code :: "(nat \<Rightarrow> real) \<Rightarrow> upload_form \<Rightarrow> string" where
  "chosen_code rnd form =
     (let custom = strip (form_get (code_field form))
      in if custom \<noteq> [] then custom else generate_code rnd 6)"

text \<open>
  \<^verbatim>\<open>file.save(path)\<close>: the path is opened for writing, which raises when it leads
  nowhere; otherwise the place holds the uploaded file from then on (written over the
  database file, the upload takes the place of the table).
\<close>

definition file_save :: "string \<Rightarrow> world \<Rightarrow> py_error + world" where
  "file_save path w =
     (case locate w path of
        None \<Rightarrow> Inl OSError
      | Some q \<Rightarrow>
          if Some q = locate w DB_FILE then Inr (w\<lparr>store := None\<rparr>)
          else Inr (w\<lparr>files := insert q (files w)\<rparr>))"

text \<open>
  The call \<^verbatim>\<open>save_mapping(code, target)\<close> as a whole: the statement raises when the
  database has no table.
\<close>

definition save_mapping_call :: "real \<Rightarrow> string \<Rightarrow> string \<Rightarrow> world \<Rightarrow> py_error + world" where
  "save_mapping_call clock c tgt w =
     (case store w of
        None \<Rightarrow> Inl OperationalError
      | Some tb \<Rightarrow> Inr (w\<lparr>store := Some (save_mapping clock c tgt tb)\<rparr>))"

text \<open>
  The handler of \<^verbatim>\<open>POST /upload\<close>. \<^verbatim>\<open>secure_filename\<close> belongs to Werkzeug and is a
  parameter. The handler reads the clock for the file name and again in
  \<^verbatim>\<open>save_mapping\<close>; both reads are the one reading \<open>clock\<close> here. The result is the page,
  or the exception that leaves the handler, beside the state then: a file saved before
  \<^verbatim>\<open>save_mapping\<close> raises stays saved.
\<close>

definition upload_file ::
  "string \<Rightarrow> (string \<Rightarrow> string) \<Rightarrow> (nat \<Rightarrow> real) \<Rightarrow> real \<Rightarrow> upload_form \<Rightarrow> world \<Rightarrow>
     (py_error + page) \<times> world" where
  "upload_file local_ip secure_filename rnd clock form w =
     (let url = strip (form_get (url_field form));
          c = chosen_code rnd form
      in if has_file form \<and> url \<noteq> [] then
           (Inr (Error_message ''Error: Provide EITHER a URL OR a file, not both.''), w)
         else if has_file form then
           (let filename =
                  py_str (py_int clock) @ ''_'' @ secure_filename (form_get (file_field form));
                path = os_path_join UPLOAD_FOLDER filename
            in case file_save path w of
                 Inl e \<Rightarrow> (Inl e, w)
               | Inr w1 \<Rightarrow>
                   (case save_mapping_call clock c (''/uploads/'' @ filename) w1 of
                      Inl e \<Rightarrow> (Inl e, w1)
                    | Inr w2 \<Rightarrow> (Inr (Short_url (make_short local_ip c)), w2)))
         else if url \<noteq> [] then
           (case save_mapping_call clock c url w of
              Inl e \<Rightarrow> (Inl e, w)
            | Inr w2 \<Rightarrow> (Inr (Short_url (make_short local_ip c)), w2))
         else (Inr (Error_message ''Error: Please provide a file or a URL.''), w))"

text \<open>
  The answers of \<^verbatim>\<open>GET /<code>\<close>: \<^verbatim>\<open>"Not found", 404\<close>; \<^verbatim>\<open>"Link expired", 410\<close>;
  what Flask's \<^verbatim>\<open>send_from_directory(directory, path, as_attachment=True)\<close> makes of
  its arguments; \<^verbatim>\<open>redirect(target)\<close>.
\<close>

datatype response =
  Not_found
| Link_expired
| Send_from_directory string string
| Redirect string

text \<open>
  \<^verbatim>\<open>UPDATE urls SET hits = hits + 1 WHERE code = ?\<close> on a connection of its own, as it
  acts on the table: one statement, which SQLite runs as a whole. The statement is not
  guarded: when SQLite raises (a database that stays locked, a full disk), which \<open>fails\<close>
  stands for, the exception leaves the handler and nothing is written.
\<close>

definition update_hits :: "bool \<Rightarrow> string \<Rightarrow> table \<Rightarrow> py_error + table" where
  "update_hits fails c tb =
     (if fails then Inl OperationalError
      else Inr (map (\<lambda>r. if code r = c then r\<lparr>hits := hits r + 1\<rparr> else r) tb))"

text \<open>
  The last statements of the handler of \<^verbatim>\<open>GET /<code>\<close>, which answer with the target:
  \<^verbatim>\<open>
  if target.startswith("/uploads/"):
      return send_from_directory(app.config["UPLOAD_FOLDER"],
                                 target.replace("/uploads/", "", 1), as_attachment=True)
  return redirect(target)
  \<close>
\<close>

definition deliver :: "string \<Rightarrow> response" where
  "deliver tgt =
     (if startswith tgt ''/uploads/'' then
        Send_from_directory UPLOAD_FOLDER (str_replace1 ''/uploads/'' [] tgt)
      else Redirect tgt)"

text \<open>
  The handler of \<^verbatim>\<open>GET /<code>\<close>. Its \<^verbatim>\<open>SELECT\<close> raises when the database has no table.
  It compares the unrounded clock reading with the creation time; the row is updated
  under the code that the row itself carries.
\<close>

definition redirect_code :: "bool \<Rightarrow> real \<Rightarrow> string \<Rightarrow> world \<Rightarrow> py_error + response \<times> world" where
  "redirect_code fails clock c w =
     (case store w of
        None \<Rightarrow> Inl OperationalError
      | Some tb \<Rightarrow>
          (case get_row tb c of
             None \<Rightarrow> Inr (Not_found, w)
           | Some r \<Rightarrow>
               if clock - real_of_int (created_at r) > real_of_int DELETE_AFTER_SECONDS then
                 Inr (Link_expired, w)
               else
                 (case update_hits fails (code r) tb of
                    Inl e \<Rightarrow> Inl e
                  | Inr tb' \<Rightarrow> Inr (deliver (target r), w\<lparr>store := Some tb'\<rparr>))))"

text \<open>
  The handler of \<^verbatim>\<open>GET /api/metadata/<code>\<close>: the JSON object with \<^verbatim>\<open>target\<close>,
  \<^verbatim>\<open>created_at\<close>, \<^verbatim>\<open>expires_in\<close> and \<^verbatim>\<open>hits\<close>, or the 404 answer. It writes nothing; its
  \<^verbatim>\<open>SELECT\<close> raises when the database has no table.
\<close>

datatype metadata_response = Metadata_not_found | Metadata_json string int int int

definition metadata :: "real \<Rightarrow> string \<Rightarrow> world \<Rightarrow> py_error + metadata_response" where
  "metadata clock c w =
     (case store w of
        None \<Rightarrow> Inl OperationalError
      | Some tb \<Rightarrow>
          (case get_row tb c of
             None \<Rightarrow> Inr Metadata_not_found
           | Some r \<Rightarrow>
               Inr (Metadata_json (target r) (created_at r)
                      (seconds_left clock (created_at r)) (hits r))))"

text \<open>
  A target leads \<^verbatim>\<open>cleanup\<close> to the database when it starts with \<^verbatim>\<open>/uploads/\<close> and the path
  computed from it is that of the database file or of its journal.
\<close>

definition touches_database :: "world \<Rightarrow> string \<Rightarrow> bool" where
  "touches_database w tgt =
     (startswith tgt ''/uploads/'' \<and>
      (case locate w (artifact_path tgt) of
         None \<Rightarrow> False
       | Some q \<Rightarrow> Some q = locate w DB_FILE \<or> Some q = locate w (DB_FILE @ ''-journal'')))"

section \<open>Runs of the application\<close>

text \<open>
  What happens to the state over time: a request to one of the three handlers that read
  or write the table, or one iteration of the cleanup daemon, each with its clock reading
  and the choices of its environment. The handlers of \<^verbatim>\<open>GET /<code>\<close> and of the
  metadata leave the state as it was when an exception leaves them.
\<close>

datatype event =
  Post_upload "nat \<Rightarrow> real" real upload_form
| Get_code bool real string
| Get_metadata real string
| Cleanup_tick "string \<Rightarrow> bool" real

fun step :: "string \<Rightarrow> (string \<Rightarrow> string) \<Rightarrow> event \<Rightarrow> world \<Rightarrow> world" where
  "step local_ip secure_filename (Post_upload rnd clock form) w =
     snd (upload_file local_ip secure_filename rnd clock form w)"
| "step local_ip secure_filename (Get_code fails clock c) w =
     (case redirect_code fails clock c w of Inl e \<Rightarrow> w | Inr (resp, w') \<Rightarrow> w')"
| "step local_ip secure_filename (Get_metadata clock c) w = w"
| "step local_ip secure_filename (Cleanup_tick fails clock) w = snd (cleanup_body fails clock w)"

fun run :: "string \<Rightarrow> (string \<Rightarrow> string) \<Rightarrow> event list \<Rightarrow> world \<Rightarrow> world" where
  "run local_ip secure_filename [] w = w"
| "run local_ip secure_filename (e # es) w =
     run local_ip secure_filename es (step local_ip secure_filename e w)"

text \<open>
  The state at startup on a fresh database: the empty table, in a file tree \<open>loc\<close> with
  the files \<open>fs\<close>.
\<close>

definition startup :: "(string \<Rightarrow> string option) \<Rightarrow> string set \<Rightarrow> world" where
  "startup loc fs = \<lparr>store = Some init_db, locate = loc, files = fs, remove_calls = []\<rparr>"

text \<open>The counter of every row is a non-negative integer.\<close>

definition hits_nonneg :: "table \<Rightarrow> bool" where
  "hits_nonneg tb = (\<forall>r \<in> set tb. 0 \<le> hits r)"

section \<open>Lookups that run at the same time\<close>

text \<open>
  The server runs each request on a thread of its own. A lookup makes two statements on
  the database, the \<^verbatim>\<open>SELECT\<close> of \<^verbatim>\<open>get_row\<close> and the \<^verbatim>\<open>UPDATE\<close> of the counter, each on
  its own connection; SQLite runs a statement as a whole, so lookups that run at the same
  time interleave statement by statement. A thread is the request (the code, the reading
  of the clock it takes after the \<^verbatim>\<open>SELECT\<close>, whether its \<^verbatim>\<open>UPDATE\<close> raises) and the point
  it has reached: not started, past the \<^verbatim>\<open>SELECT\<close> and the expiry test with the row it
  read, or returned.
\<close>

datatype pc = Not_started | Selected row | Returned "py_error + response"

record thread =
  req_code :: string
  req_clock :: real
  req_fails :: bool
  reached :: pc

text \<open>The next statement of a thread, with the Python around it.\<close>

definition thread_step :: "thread \<Rightarrow> world \<Rightarrow> thread \<times> world" where
  "thread_step t w =
     (case reached t of
        Not_started \<Rightarrow>
          (case store w of
             None \<Rightarrow> (t\<lparr>reached := Returned (Inl OperationalError)\<rparr>, w)
           | Some tb \<Rightarrow>
               (case get_row tb (req_code t) of
                  None \<Rightarrow> (t\<lparr>reached := Returned (Inr Not_found)\<rparr>, w)
                | Some r \<Rightarrow>
                    if req_clock t - real_of_int (created_at r) > real_of_int DELETE_AFTER_SECONDS
                    then (t\<lparr>reached := Returned (Inr Link_expired)\<rparr>, w)
                    else (t\<lparr>reached := Selected r\<rparr>, w)))
      | Selected r \<Rightarrow>
          (case store w of
             None \<Rightarrow> (t\<lparr>reached := Returned (Inl OperationalError)\<rparr>, w)
           | Some tb \<Rightarrow>
               (case update_hits (req_fails t) (code r) tb of
                  Inl e \<Rightarrow> (t\<lparr>reached := Returned (Inl e)\<rparr>, w)
                | Inr tb' \<Rightarrow>
                    (t\<lparr>reached := Returned (Inr (deliver (target r)))\<rparr>, w\<lparr>store := Some tb'\<rparr>)))
      | Returned x \<Rightarrow> (t, w))"

text \<open>
  A schedule names, statement after statement, the thread that runs next; a number that
  names no thread is skipped.
\<close>

fun interleave :: "nat list \<Rightarrow> thread list \<Rightarrow> world \<Rightarrow> thread list \<times> world" where
  "interleave [] ts w = (ts, w)"
| "interleave (i # sched) ts w =
     (if i < length ts then
        (case thread_step (ts ! i) w of (t', w') \<Rightarrow> interleave sched (ts[i := t']) w')
      else interleave sched ts w)"

text \<open>A thread has counted its hit when it has returned with a target.\<close>

definition hit_counted :: "thread \<Rightarrow> bool" where
  "hit_counted t =
     (case reached t of
        Returned (Inr resp) \<Rightarrow> resp \<noteq> Not_found \<and> resp \<noteq> Link_expired
      | _ \<Rightarrow> False)"

text \<open>The number of threads of a list that looked up the code \<open>c\<close> and counted their hit.\<close>

definition hits_counted :: "string \<Rightarrow> thread list \<Rightarrow> int" where
  "hits_counted c ts = int (length (filter (\<lambda>t. req_code t = c \<and> hit_counted t) ts))"

text \<open>A thread past its \<^verbatim>\<open>SELECT\<close> holds a row of the code it asked for.\<close>

definition well_started :: "thread \<Rightarrow> bool" where
  "well_started t = (case reached t of Selected r \<Rightarrow> code r = req_code t | _ \<Rightarrow> True)"

text \<open>The statements a thread has yet to run, at most.\<close>

definition statements_left :: "thread \<Rightarrow> nat" where
  "statements_left t = (case reached t of Not_started \<Rightarrow> 2 | Selected r \<Rightarrow> 1 | Returned x \<Rightarrow> 0)"

text \<open>Two rows are states of one entry: they differ in the counter at most.\<close>

definition same_entry :: "row \<Rightarrow> row \<Rightarrow> bool" where
  "same_entry r r' = (code r' = code r \<and> target r' = target r \<and> created_at r' = created_at r)"

text \<open>
  A thread that looks up the code of the entry \<open>r\<close> is on course when its update does
  not raise, its clock reading is within the time to live of the entry, and what it has
  done so far is to read the entry or to return its target.
\<close>

definition on_course :: "row \<Rightarrow> thread \<Rightarrow> bool" where
  "on_course r t =
     (req_code t = code r \<longrightarrow>
        \<not> req_fails t \<and>
        \<not> req_clock t - real_of_int (created_at r) > real_of_int DELETE_AFTER_SECONDS \<and>
        (case reached t of
           Not_started \<Rightarrow> True
         | Selected r' \<Rightarrow> same_entry r r'
         | Returned x \<Rightarrow> x = Inr (deliver (target r))))"

section \<open>States to run the operations on\<close>

text \<open>
  A working directory \<^verbatim>\<open>/app\<close> with the upload folder \<^verbatim>\<open>static/uploads\<close>: the paths of the
  examples and the places they lead to.
\<close>

definition locate0 :: "string \<Rightarrow> string option" where
  "locate0 = map_of
     [(''urls.db'', ''/app/urls.db''),
      (''urls.db-journal'', ''/app/urls.db-journal''),
      (''static/uploads/../../urls.db'', ''/app/urls.db''),
      (''static/uploads/1_a.png'', ''/app/static/uploads/1_a.png''),
      (''static/uploads/./1_a.png'', ''/app/static/uploads/1_a.png''),
      (''static/uploads/500_b.png'', ''/app/static/uploads/500_b.png''),
      (''static/uploads/1700_a.png'', ''/app/static/uploads/1700_a.png'')]"

text \<open>
  Three rows: a file-backed and a URL-backed one created at time 0, both with hits, and a
  file-backed one created at time 500; the two artifacts are in the upload folder.
\<close>

definition w0 :: world where
  "w0 = \<lparr>store = Some
            [\<lparr>code = ''x'', target = ''/uploads/1_a.png'', created_at = 0, hits = 3\<rparr>,
             \<lparr>code = ''abc123'', target = ''https://example.com'', created_at = 0, hits = 1\<rparr>,
             \<lparr>code = ''new'', target = ''/uploads/500_b.png'', created_at = 500, hits = 0\<rparr>],
          locate = locate0,
          files = {''/app/static/uploads/1_a.png'', ''/app/static/uploads/500_b.png''},
          remove_calls = []\<rparr>"

text \<open>
  The state after two uploads through the URL field on a fresh database with no files:
  at time 0 the URL \<^verbatim>\<open>/uploads/../../urls.db\<close> under the code \<^verbatim>\<open>evil\<close>, at time 500 a web
  address under the code \<^verbatim>\<open>keep\<close>.
\<close>

definition w_db :: world where
  "w_db = \<lparr>store = Some
             [\<lparr>code = ''evil'', target = ''/uploads/../../urls.db'', created_at = 0, hits = 0\<rparr>,
              \<lparr>code = ''keep'', target = ''https://example.com'', created_at = 500, hits = 0\<rparr>],
           locate = locate0, files = {}, remove_calls = []\<rparr>"

text \<open>
  A state with one file-backed row, not yet expired at time 1, whose artifact is missing
  from the upload folder.
\<close>

definition w_missing :: world where
  "w_missing =
     \<lparr>store = Some [\<lparr>code = ''x'', target = ''/uploads/1_a.png'', created_at = 0, hits = 0\<rparr>],
      locate = locate0, files = {}, remove_calls = []\<rparr>"

text \<open>
  Upload forms: a URL under a custom code with blanks around it; a file under a custom
  code of blanks only; a URL that starts with \<^verbatim>\<open>/uploads/\<close> and leads to the database
  file; a URL under the code \<^verbatim>\<open>keep\<close>.
\<close>

definition form1 :: upload_form where
  "form1 = \<lparr>file_field = None, url_field = Some ''https://example.com'',
            code_field = Some '' abc123 ''\<rparr>"

definition form2 :: upload_form where
  "form2 = \<lparr>file_field = Some ''a.png'', url_field = None, code_field = Some ''  ''\<rparr>"

definition form_db :: upload_form where
  "form_db = \<lparr>file_field = None, url_field = Some ''/uploads/../../urls.db'',
              code_field = Some ''evil''\<rparr>"

definition form_keep :: upload_form where
  "form_keep = \<lparr>file_field = None, url_field = Some ''https://example.com'',
                code_field = Some ''keep''\<rparr>"

section \<open>Properties of the store\<close>

lemma get_row_None_iff: "get_row tb c = None \<longleftrightarrow> c \<notin> code ` set tb"
  by (auto simp: get_row_def find_None_iff)

lemma get_row_SomeD: "get_row tb c = Some r \<Longrightarrow> r \<in> set tb \<and> code r = c"
  by (auto simp: get_row_def find_Some_iff)

lemma get_row_unique:
  assumes "primary_key tb" and "r \<in> set tb"
  shows "get_row tb (code r) = Some r"
  using assms
proof (induction tb)
  case Nil
  then show ?case by simp
next
  case (Cons a tb)
  then show ?case
    by (auto simp: get_row_def primary_key_def)
qed

lemma get_row_save_mapping_same:
  "get_row (save_mapping clock c tgt tb) c =
     Some \<lparr>code = c, target = tgt, created_at = py_int clock, hits = 0\<rparr>"
  by (induction tb) (auto simp: get_row_def save_mapping_def)

lemma get_row_save_mapping_other:
  "c' \<noteq> c \<Longrightarrow> get_row (save_mapping clock c tgt tb) c' = get_row tb c'"
  by (induction tb) (auto simp: get_row_def save_mapping_def)

lemma primary_key_save_mapping:
  "primary_key tb \<Longrightarrow> primary_key (save_mapping clock c tgt tb)"
  by (auto simp: primary_key_def save_mapping_def distinct_map_filter)

lemma db_Some: "store w = Some tb \<Longrightarrow> db w = tb"
  by (simp add: db_def)

lemma db_None: "store w = None \<Longrightarrow> db w = []"
  by (simp add: db_def)

lemma db_store_update [simp]: "db (w\<lparr>store := Some tb\<rparr>) = tb"
  by (simp add: db_def)

lemma store_of_row:
  assumes "r \<in> set (db w)"
  obtains tb where "store w = Some tb" and "db w = tb"
  using assms by (cases "store w") (auto simp: db_def)

lemma store_of_get_row:
  assumes "get_row (db w) c = Some r"
  obtains tb where "store w = Some tb" and "db w = tb"
  using assms by (cases "store w") (auto simp: db_def get_row_def)

lemma db_w0:
  "db w0 =
     [\<lparr>code = ''x'', target = ''/uploads/1_a.png'', created_at = 0, hits = 3\<rparr>,
      \<lparr>code = ''abc123'', target = ''https://example.com'', created_at = 0, hits = 1\<rparr>,
      \<lparr>code = ''new'', target = ''/uploads/500_b.png'', created_at = 500, hits = 0\<rparr>]"
  by (simp add: w0_def db_def)

lemma primary_key_w0: "primary_key (db w0)"
  by (simp add: db_w0 primary_key_def)

lemma py_int_of_int [simp]: "py_int (real_of_int i) = i"
  by (simp add: py_int_def)

lemma py_int_numeral [simp]: "py_int (numeral n) = numeral n"
  by (simp add: py_int_def)

lemma py_int_0 [simp]: "py_int 0 = 0"
  by (simp add: py_int_def)

lemma UPLOAD_FOLDER_eq: "UPLOAD_FOLDER = ''static/uploads''"
  by (simp add: UPLOAD_FOLDER_def os_path_join_def suffix_def)

section \<open>Replacing a mapping\<close>

text \<open>
  C1. For every code and every pair of targets, after \<^verbatim>\<open>save_mapping(c, t1)\<close> and then
  \<^verbatim>\<open>save_mapping(c, t2)\<close>, \<^verbatim>\<open>get_row(c)\<close> returns the row with target \<open>t2\<close>, with
  \<open>hits = 0\<close> and with the creation time of the second call. The hits are 0 whatever the
  table held for the code before the second call, so hits counted in between are
  discarded.
\<close>

theorem save_mapping_twice:
  "get_row (save_mapping clock2 c t2 (save_mapping clock1 c t1 tb)) c =
     Some \<lparr>code = c, target = t2, created_at = py_int clock2, hits = 0\<rparr>
   \<and> get_row (save_mapping clock2 c t2 tb') c =
     Some \<lparr>code = c, target = t2, created_at = py_int clock2, hits = 0\<rparr>"
  by (simp add: get_row_save_mapping_same)

theorem save_mapping_twice_witness:
  "get_row (save_mapping 7 ''x'' ''https://example.org'' (db w0)) ''x'' =
     Some \<lparr>code = ''x'', target = ''https://example.org'', created_at = 7, hits = 0\<rparr>
   \<and> get_row (db w0) ''x'' =
     Some \<lparr>code = ''x'', target = ''/uploads/1_a.png'', created_at = 0, hits = 3\<rparr>"
  using save_mapping_twice [of 7 "''x''" "''https://example.org''" 0 "''/uploads/1_a.png''" "[]" "db w0"]
  by (simp add: get_row_def db_w0)

section \<open>Reading a row\<close>

text \<open>
  C5. \<^verbatim>\<open>get_row\<close> returns \<open>None\<close> exactly when the table has no row for the code. Under
  the primary key, for every row of the table it returns that row in full, whatever its
  creation time: \<^verbatim>\<open>get_row\<close> reads no clock. The metadata handler, which calls it,
  answers with the fields of the row also when the row is past its time to live, and then
  with \<open>expires_in = 0\<close>.
\<close>

theorem get_row_regardless_of_ttl:
  "(get_row tb c = None \<longleftrightarrow> c \<notin> code ` set tb)
   \<and> (primary_key tb \<and> r \<in> set tb \<longrightarrow> get_row tb (code r) = Some r)
   \<and> (primary_key (db w) \<and> r \<in> set (db w) \<longrightarrow>
        metadata clock (code r) w =
          Inr (Metadata_json (target r) (created_at r) (seconds_left clock (created_at r))
                 (hits r)))
   \<and> (primary_key (db w) \<and> r \<in> set (db w) \<and>
        py_int clock - created_at r > DELETE_AFTER_SECONDS \<longrightarrow>
        metadata clock (code r) w = Inr (Metadata_json (target r) (created_at r) 0 (hits r)))"
proof -
  have "metadata clock (code r) w =
          Inr (Metadata_json (target r) (created_at r) (seconds_left clock (created_at r))
                 (hits r))"
    if pk: "primary_key (db w)" and mem: "r \<in> set (db w)"
  proof -
    from mem obtain tb where tb: "store w = Some tb" "db w = tb"
      by (rule store_of_row)
    from pk mem have "get_row tb (code r) = Some r"
      unfolding tb(2) by (rule get_row_unique)
    with tb(1) show ?thesis
      by (simp add: metadata_def)
  qed
  then show ?thesis
    by (auto simp: get_row_None_iff get_row_unique seconds_left_def)
qed

theorem get_row_regardless_of_ttl_witness:
  "primary_key (db w0)
   \<and> \<lparr>code = ''x'', target = ''/uploads/1_a.png'', created_at = 0, hits = 3\<rparr> \<in> set (db w0)
   \<and> py_int 601 - 0 > DELETE_AFTER_SECONDS
   \<and> get_row (db w0) ''x'' =
       Some \<lparr>code = ''x'', target = ''/uploads/1_a.png'', created_at = 0, hits = 3\<rparr>
   \<and> metadata 601 ''x'' w0 = Inr (Metadata_json ''/uploads/1_a.png'' 0 0 3)
   \<and> get_row (db w0) ''none'' = None"
proof -
  let ?r = "\<lparr>code = ''x'', target = ''/uploads/1_a.png'', created_at = 0, hits = 3\<rparr>"
  have mem: "?r \<in> set (db w0)"
    by (simp add: db_w0)
  have old: "py_int 601 - created_at ?r > DELETE_AFTER_SECONDS"
    by (simp add: DELETE_AFTER_SECONDS_def)
  have absent: "''none'' \<notin> code ` set (db w0)"
    by (simp add: db_w0)
  note inst = get_row_regardless_of_ttl [of "db w0" "''none''" ?r w0 601]
  from inst primary_key_w0 mem have "get_row (db w0) (code ?r) = Some ?r"
    by blast
  moreover from inst primary_key_w0 mem old
  have "metadata 601 (code ?r) w0 = Inr (Metadata_json (target ?r) (created_at ?r) 0 (hits ?r))"
    by blast
  moreover from inst absent have "get_row (db w0) ''none'' = None"
    by blast
  ultimately show ?thesis
    using primary_key_w0 mem old by simp
qed

section \<open>The lookup\<close>

lemma py_int_frac: "x - real_of_int (py_int x) < 1 \<and> -1 < x - real_of_int (py_int x)"
  unfolding py_int_def by (auto; linarith)

lemma get_row_bump:
  "get_row (map (\<lambda>r. if code r = c then r\<lparr>hits := hits r + 1\<rparr> else r) tb) c' =
     map_option (\<lambda>r. if code r = c then r\<lparr>hits := hits r + 1\<rparr> else r) (get_row tb c')"
  by (induction tb) (auto simp: get_row_def)

lemma redirect_code_no_table:
  "store w = None \<Longrightarrow> redirect_code fails clock c w = Inl OperationalError"
  by (simp add: redirect_code_def)

lemma redirect_code_absent:
  assumes "store w \<noteq> None" and "c \<notin> code ` set (db w)"
  shows "redirect_code fails clock c w = Inr (Not_found, w)"
proof -
  from assms(1) obtain tb where tb: "store w = Some tb" by auto
  with assms(2) have "get_row tb c = None"
    by (simp add: get_row_None_iff db_Some)
  with tb show ?thesis
    by (simp add: redirect_code_def)
qed

lemma redirect_code_expired:
  assumes "get_row (db w) c = Some r"
    and "clock - real_of_int (created_at r) > real_of_int DELETE_AFTER_SECONDS"
  shows "redirect_code fails clock c w = Inr (Link_expired, w)"
proof -
  from assms(1) obtain tb where tb: "store w = Some tb" "db w = tb"
    by (rule store_of_get_row)
  with assms show ?thesis
    by (simp add: redirect_code_def)
qed

lemma redirect_code_live:
  assumes "get_row (db w) c = Some r"
    and "\<not> clock - real_of_int (created_at r) > real_of_int DELETE_AFTER_SECONDS"
  shows "redirect_code False clock c w =
     Inr (deliver (target r),
          w\<lparr>store := Some (map (\<lambda>r. if code r = c then r\<lparr>hits := hits r + 1\<rparr> else r) (db w))\<rparr>)"
proof -
  from assms(1) obtain tb where tb: "store w = Some tb" "db w = tb"
    by (rule store_of_get_row)
  from assms(1) have "code r = c"
    by (simp add: get_row_SomeD)
  with assms tb show ?thesis
    by (simp add: redirect_code_def update_hits_def)
qed

lemma redirect_code_live_fails:
  assumes "get_row (db w) c = Some r"
    and "\<not> clock - real_of_int (created_at r) > real_of_int DELETE_AFTER_SECONDS"
  shows "redirect_code True clock c w = Inl OperationalError"
proof -
  from assms(1) obtain tb where tb: "store w = Some tb" "db w = tb"
    by (rule store_of_get_row)
  with assms show ?thesis
    by (simp add: redirect_code_def update_hits_def)
qed

lemma redirect_code_target:
  assumes "redirect_code fails clock c w = Inr (resp, w')"
    and "resp \<noteq> Not_found" and "resp \<noteq> Link_expired"
  shows "\<exists>r. get_row (db w) c = Some r \<and> resp = deliver (target r) \<and>
             \<not> clock - real_of_int (created_at r) > real_of_int DELETE_AFTER_SECONDS"
proof (cases "store w")
  case None
  with assms(1) show ?thesis
    by (simp add: redirect_code_def)
next
  case (Some tb)
  with assms show ?thesis
    by (auto simp: redirect_code_def update_hits_def db_Some split: option.splits if_splits)
qed

text \<open>
  C2, as the code has it. \<^verbatim>\<open>redirect_code\<close> answers
  \<^item> \<^verbatim>\<open>Not found\<close> when the table has no row for the code;
  \<^item> \<^verbatim>\<open>Link expired\<close> when the row is there and \<open>clock - created_at\<close> exceeds
    \<^verbatim>\<open>DELETE_AFTER_SECONDS\<close>, the row being left in the table;
  \<^item> the target of the row otherwise, as a redirect or as a file sent from the upload
    folder, provided the hit update does not raise; such an answer is neither of the
    other two.
  There is a fourth outcome: when the hit update raises on a row that is not expired, or
  when the database has no table, the exception leaves the handler and nothing is
  answered. Whenever the handler answers with a target, that is the target of a row for
  the code that is not expired at this clock reading. For a mapping saved at the clock
  reading \<open>t0\<close>, the lookup at \<open>t0 + DELETE_AFTER_SECONDS - 1\<close> answers with the target
  (if the hit update does not raise) and the lookup at \<open>t0 + DELETE_AFTER_SECONDS + 1\<close>
  answers \<^verbatim>\<open>Link expired\<close>, though no cleanup has run.
\<close>

theorem redirect_code_outcomes:
  "(store w \<noteq> None \<and> c \<notin> code ` set (db w) \<longrightarrow>
      redirect_code fails clock c w = Inr (Not_found, w))
   \<and> (get_row (db w) c = Some r \<and>
        clock - real_of_int (created_at r) > real_of_int DELETE_AFTER_SECONDS \<longrightarrow>
        redirect_code fails clock c w = Inr (Link_expired, w))
   \<and> (get_row (db w) c = Some r \<and>
        \<not> clock - real_of_int (created_at r) > real_of_int DELETE_AFTER_SECONDS \<longrightarrow>
        (\<exists>w'. redirect_code False clock c w = Inr (deliver (target r), w')) \<and>
        redirect_code True clock c w = Inl OperationalError)
   \<and> (store w = None \<longrightarrow> redirect_code fails clock c w = Inl OperationalError)
   \<and> deliver tgt \<noteq> Not_found \<and> deliver tgt \<noteq> Link_expired
   \<and> (redirect_code fails clock c w = Inr (resp, w') \<and> resp \<noteq> Not_found \<and> resp \<noteq> Link_expired \<longrightarrow>
        (\<exists>r. get_row (db w) c = Some r \<and> resp = deliver (target r) \<and>
             \<not> clock - real_of_int (created_at r) > real_of_int DELETE_AFTER_SECONDS))
   \<and> (\<exists>w'. redirect_code False (t0 + real_of_int DELETE_AFTER_SECONDS - 1) c
               (w\<lparr>store := Some (save_mapping t0 c tgt (db w))\<rparr>) = Inr (deliver tgt, w'))
   \<and> redirect_code fails (t0 + real_of_int DELETE_AFTER_SECONDS + 1) c
               (w\<lparr>store := Some (save_mapping t0 c tgt (db w))\<rparr>) =
        Inr (Link_expired, w\<lparr>store := Some (save_mapping t0 c tgt (db w))\<rparr>)"
proof (intro conjI impI)
  assume "store w \<noteq> None \<and> c \<notin> code ` set (db w)"
  then show "redirect_code fails clock c w = Inr (Not_found, w)"
    by (simp add: redirect_code_absent)
next
  assume "get_row (db w) c = Some r \<and>
        clock - real_of_int (created_at r) > real_of_int DELETE_AFTER_SECONDS"
  then show "redirect_code fails clock c w = Inr (Link_expired, w)"
    by (simp add: redirect_code_expired)
next
  assume "get_row (db w) c = Some r \<and>
        \<not> clock - real_of_int (created_at r) > real_of_int DELETE_AFTER_SECONDS"
  then show "\<exists>w'. redirect_code False clock c w = Inr (deliver (target r), w')"
    and "redirect_code True clock c w = Inl OperationalError"
    by (simp_all add: redirect_code_live redirect_code_live_fails)
next
  assume "store w = None"
  then show "redirect_code fails clock c w = Inl OperationalError"
    by (rule redirect_code_no_table)
next
  show "deliver tgt \<noteq> Not_found" "deliver tgt \<noteq> Link_expired"
    by (simp_all add: deliver_def)
next
  assume "redirect_code fails clock c w = Inr (resp, w') \<and> resp \<noteq> Not_found \<and> resp \<noteq> Link_expired"
  then show "\<exists>r. get_row (db w) c = Some r \<and> resp = deliver (target r) \<and>
             \<not> clock - real_of_int (created_at r) > real_of_int DELETE_AFTER_SECONDS"
    using redirect_code_target by blast
next
  let ?w = "w\<lparr>store := Some (save_mapping t0 c tgt (db w))\<rparr>"
  let ?r = "\<lparr>code = c, target = tgt, created_at = py_int t0, hits = 0\<rparr>"
  have row: "get_row (db ?w) c = Some ?r"
    by (simp add: get_row_save_mapping_same)
  have "\<not> (t0 + real_of_int DELETE_AFTER_SECONDS - 1) - real_of_int (created_at ?r)
          > real_of_int DELETE_AFTER_SECONDS"
    using py_int_frac [of t0] by simp
  from redirect_code_live [OF row this]
  show "\<exists>w'. redirect_code False (t0 + real_of_int DELETE_AFTER_SECONDS - 1) c ?w =
          Inr (deliver tgt, w')"
    by simp
  have "(t0 + real_of_int DELETE_AFTER_SECONDS + 1) - real_of_int (created_at ?r)
          > real_of_int DELETE_AFTER_SECONDS"
    using py_int_frac [of t0] by simp
  from redirect_code_expired [OF row this]
  show "redirect_code fails (t0 + real_of_int DELETE_AFTER_SECONDS + 1) c ?w = Inr (Link_expired, ?w)"
    by simp
qed

theorem redirect_code_outcomes_witness:
  "redirect_code False 601 ''none'' w0 = Inr (Not_found, w0)
   \<and> get_row (db w0) ''abc123'' =
       Some \<lparr>code = ''abc123'', target = ''https://example.com'', created_at = 0, hits = 1\<rparr>
   \<and> redirect_code False 601 ''abc123'' w0 = Inr (Link_expired, w0)
   \<and> (\<exists>w'. redirect_code False 599 ''abc123'' w0 = Inr (Redirect ''https://example.com'', w'))
   \<and> redirect_code True 599 ''abc123'' w0 = Inl OperationalError"
proof -
  let ?r = "\<lparr>code = ''abc123'', target = ''https://example.com'', created_at = 0, hits = 1\<rparr>"
  have there: "store w0 \<noteq> None"
    by (simp add: w0_def)
  have absent: "''none'' \<notin> code ` set (db w0)"
    by (simp add: db_w0)
  have row: "get_row (db w0) ''abc123'' = Some ?r"
    by (simp add: get_row_def db_w0)
  have late: "601 - real_of_int (created_at ?r) > real_of_int DELETE_AFTER_SECONDS"
    by (simp add: DELETE_AFTER_SECONDS_def)
  have early: "\<not> 599 - real_of_int (created_at ?r) > real_of_int DELETE_AFTER_SECONDS"
    by (simp add: DELETE_AFTER_SECONDS_def)
  have url: "deliver (target ?r) = Redirect ''https://example.com''"
    by (simp add: deliver_def startswith_def)
  from redirect_code_outcomes [of w0 "''none''" False 601] there absent
  have "redirect_code False 601 ''none'' w0 = Inr (Not_found, w0)"
    by blast
  moreover from redirect_code_outcomes [of w0 "''abc123''" False 601 ?r] row late
  have "redirect_code False 601 ''abc123'' w0 = Inr (Link_expired, w0)"
    by blast
  moreover from redirect_code_outcomes [of w0 "''abc123''" False 599 ?r] row early
  have "(\<exists>w'. redirect_code False 599 ''abc123'' w0 = Inr (deliver (target ?r), w'))
        \<and> redirect_code True 599 ''abc123'' w0 = Inl OperationalError"
    by blast
  ultimately show ?thesis
    using row url by simp
qed

text \<open>
  C2 as stated fails: the lookup of the row \<^verbatim>\<open>x\<close>, which is there and not expired at
  time 1, ends in an exception when the hit update raises, which is none of the three
  outcomes.
\<close>

theorem lookup_fourth_outcome_counterexample:
  "get_row (db w0) ''x'' =
       Some \<lparr>code = ''x'', target = ''/uploads/1_a.png'', created_at = 0, hits = 3\<rparr>
   \<and> \<not> 1 - real_of_int 0 > real_of_int DELETE_AFTER_SECONDS
   \<and> redirect_code True 1 ''x'' w0 = Inl OperationalError"
  by (simp add: redirect_code_def w0_def db_def get_row_def DELETE_AFTER_SECONDS_def
      update_hits_def)

section \<open>Counting hits\<close>

text \<open>
  C7, as the code has it. On a lookup of a row that is not expired the counter of the row
  is raised by one before the target is returned. The update is not guarded: when it
  raises, the exception leaves the handler, no target is returned and nothing is written.
\<close>

theorem redirect_code_hit_update:
  assumes "get_row (db w) c = Some r"
    and "\<not> clock - real_of_int (created_at r) > real_of_int DELETE_AFTER_SECONDS"
  shows "redirect_code False clock c w =
           Inr (deliver (target r),
                w\<lparr>store :=
                    Some (map (\<lambda>r. if code r = c then r\<lparr>hits := hits r + 1\<rparr> else r) (db w))\<rparr>)
       \<and> get_row (map (\<lambda>r. if code r = c then r\<lparr>hits := hits r + 1\<rparr> else r) (db w)) c =
           Some (r\<lparr>hits := hits r + 1\<rparr>)
       \<and> redirect_code True clock c w = Inl OperationalError"
  using assms get_row_SomeD [OF assms(1)]
  by (simp add: redirect_code_live redirect_code_live_fails get_row_bump)

theorem redirect_code_hit_update_witness:
  "redirect_code False 599 ''abc123'' w0 =
     Inr (Redirect ''https://example.com'',
          w0\<lparr>store := Some
               [\<lparr>code = ''x'', target = ''/uploads/1_a.png'', created_at = 0, hits = 3\<rparr>,
                \<lparr>code = ''abc123'', target = ''https://example.com'', created_at = 0, hits = 2\<rparr>,
                \<lparr>code = ''new'', target = ''/uploads/500_b.png'', created_at = 500, hits = 0\<rparr>]\<rparr>)
   \<and> redirect_code True 599 ''abc123'' w0 = Inl OperationalError"
proof -
  let ?r = "\<lparr>code = ''abc123'', target = ''https://example.com'', created_at = 0, hits = 1\<rparr>"
  have row: "get_row (db w0) ''abc123'' = Some ?r"
    by (simp add: get_row_def db_w0)
  have early: "\<not> 599 - real_of_int (created_at ?r) > real_of_int DELETE_AFTER_SECONDS"
    by (simp add: DELETE_AFTER_SECONDS_def)
  from redirect_code_hit_update [OF row early] show ?thesis
    by (simp add: deliver_def startswith_def db_w0)
qed

text \<open>
  C7 as stated fails: with a hit update that raises, the lookup of a live row ends in the
  exception and not in the target.
\<close>

theorem hit_update_failure_counterexample:
  "get_row (db w0) ''abc123'' =
       Some \<lparr>code = ''abc123'', target = ''https://example.com'', created_at = 0, hits = 1\<rparr>
   \<and> \<not> 599 - real_of_int 0 > real_of_int DELETE_AFTER_SECONDS
   \<and> redirect_code True 599 ''abc123'' w0 = Inl OperationalError"
  by (simp add: redirect_code_def w0_def db_def get_row_def DELETE_AFTER_SECONDS_def
      update_hits_def)

section \<open>What a sweep does\<close>

lemma remove_artifact_url:
  "\<not> startswith tgt ''/uploads/'' \<Longrightarrow> remove_artifact fails tgt j w = (j, w)"
  by (simp add: remove_artifact_def)

lemma remove_artifact_clear:
  assumes "\<not> touches_database w tgt"
  shows "fst (remove_artifact fails tgt j w) = j"
    and "store (snd (remove_artifact fails tgt j w)) = store w"
    and "locate (snd (remove_artifact fails tgt j w)) = locate w"
    and "files (snd (remove_artifact fails tgt j w)) =
           files w - {q. startswith tgt ''/uploads/'' \<and> locate w (artifact_path tgt) = Some q \<and>
                         \<not> fails q}"
    and "remove_calls (snd (remove_artifact fails tgt j w)) =
           remove_calls w @
             [q. q \<leftarrow> (case locate w (artifact_path tgt) of None \<Rightarrow> [] | Some q \<Rightarrow> [q]),
                 startswith tgt ''/uploads/'' \<and> q \<in> files w]"
  using assms
  by (auto simp: remove_artifact_def touches_database_def artifact_path_def os_remove_def
      os_path_isfile_def Let_def split: option.splits sum.splits)

lemma touches_database_cong:
  "locate w' = locate w \<Longrightarrow> touches_database w' tgt = touches_database w tgt"
  by (simp add: touches_database_def split: option.splits)

lemma delete_stmt_table:
  assumes "store w = Some tb" and "j \<noteq> Journal_removed"
  shows "delete_stmt c j w = Inr (Journal, w\<lparr>store := Some (delete_row c tb)\<rparr>)"
  using assms by (cases j) (simp_all add: delete_stmt_def)

lemma cleanup_for_step:
  assumes "store w = Some tb" and "j \<noteq> Journal_removed" and "\<not> touches_database w tgt"
  shows "cleanup_for fails ((c, tgt) # xs) j w =
           cleanup_for fails xs Journal
             ((snd (remove_artifact fails tgt j w))\<lparr>store := Some (delete_row c tb)\<rparr>)"
proof -
  obtain j1 w1 where ra: "remove_artifact fails tgt j w = (j1, w1)"
    by (cases "remove_artifact fails tgt j w")
  from remove_artifact_clear(1,2) [OF assms(3), of fails j] ra assms(1)
  have "j1 = j" and "store w1 = Some tb"
    by simp_all
  with assms(2) have "delete_stmt c j1 w1 = Inr (Journal, w1\<lparr>store := Some (delete_row c tb)\<rparr>)"
    by (simp add: delete_stmt_table)
  with ra show ?thesis
    by simp
qed

lemma cleanup_for_clear:
  assumes "store w = Some tb" and "j \<noteq> Journal_removed"
    and "\<forall>tgt \<in> snd ` set xs. \<not> touches_database w tgt"
  shows "fst (cleanup_for fails xs j w) = None
       \<and> store (snd (cleanup_for fails xs j w)) =
           Some (filter (\<lambda>r. code r \<notin> fst ` set xs) tb)
       \<and> locate (snd (cleanup_for fails xs j w)) = locate w
       \<and> files (snd (cleanup_for fails xs j w)) =
           files w - {q. \<exists>tgt \<in> snd ` set xs. startswith tgt ''/uploads/'' \<and>
                          locate w (artifact_path tgt) = Some q \<and> \<not> fails q}
       \<and> set (remove_calls (snd (cleanup_for fails xs j w))) =
           set (remove_calls w) \<union>
             {q \<in> files w. \<exists>tgt \<in> snd ` set xs. startswith tgt ''/uploads/'' \<and>
                          locate w (artifact_path tgt) = Some q}"
  using assms
proof (induction xs arbitrary: j w tb)
  case Nil
  then show ?case
    by (simp add: commit_def)
next
  case (Cons e xs)
  obtain c tgt where e: "e = (c, tgt)" by (cases e)
  from Cons.prems(3) have clear: "\<not> touches_database w tgt"
    and rest: "\<forall>tgt \<in> snd ` set xs. \<not> touches_database w tgt"
    by (auto simp: e)
  let ?w1 = "snd (remove_artifact fails tgt j w)"
  let ?w2 = "?w1\<lparr>store := Some (delete_row c tb)\<rparr>"
  note ra = remove_artifact_clear [OF clear, of fails j]
  have step: "cleanup_for fails (e # xs) j w = cleanup_for fails xs Journal ?w2"
    unfolding e using Cons.prems(1,2) clear by (rule cleanup_for_step)
  have loc: "locate ?w2 = locate w"
    by (simp add: ra(3))
  have rest2: "\<forall>tgt \<in> snd ` set xs. \<not> touches_database ?w2 tgt"
    using rest by (simp add: touches_database_cong [OF loc])
  have st2: "store ?w2 = Some (delete_row c tb)"
    by simp
  note IH = Cons.IH [OF st2 _ rest2, of Journal, simplified]
  have f2: "files ?w2 =
      files w - {q. startswith tgt ''/uploads/'' \<and> locate w (artifact_path tgt) = Some q \<and>
                    \<not> fails q}"
    by (simp add: ra(4))
  have c2: "set (remove_calls ?w2) =
      set (remove_calls w) \<union>
        {q \<in> files w. startswith tgt ''/uploads/'' \<and> locate w (artifact_path tgt) = Some q}"
    by (auto simp: ra(5) split: option.splits)
  have flt: "filter (\<lambda>r. code r \<notin> fst ` set xs) (delete_row c tb) =
        filter (\<lambda>r. code r \<notin> fst ` set (e # xs)) tb"
    by (auto simp: e delete_row_def intro: filter_cong)
  show ?case
    unfolding step
  proof (intro conjI)
    show "fst (cleanup_for fails xs Journal ?w2) = None"
      using IH by simp
    show "store (snd (cleanup_for fails xs Journal ?w2)) =
        Some (filter (\<lambda>r. code r \<notin> fst ` set (e # xs)) tb)"
      using IH flt by simp
    show "locate (snd (cleanup_for fails xs Journal ?w2)) = locate w"
      using IH loc by simp
    show "files (snd (cleanup_for fails xs Journal ?w2)) =
        files w - {q. \<exists>tgt \<in> snd ` set (e # xs). startswith tgt ''/uploads/'' \<and>
                          locate w (artifact_path tgt) = Some q \<and> \<not> fails q}"
      using IH f2 loc by (auto simp: e)
    show "set (remove_calls (snd (cleanup_for fails xs Journal ?w2))) =
        set (remove_calls w) \<union>
          {q \<in> files w. \<exists>tgt \<in> snd ` set (e # xs). startswith tgt ''/uploads/'' \<and>
                          locate w (artifact_path tgt) = Some q}"
      using IH f2 c2 loc by (auto simp: e)
  qed
qed

lemma cleanup_for_urls:
  assumes "store w = Some tb" and "j \<noteq> Journal_removed"
    and "\<forall>tgt \<in> snd ` set xs. \<not> startswith tgt ''/uploads/''"
  shows "cleanup_for fails xs j w =
           (None, w\<lparr>store := Some (filter (\<lambda>r. code r \<notin> fst ` set xs) tb)\<rparr>)"
  using assms
proof (induction xs arbitrary: j w tb)
  case Nil
  then have "w\<lparr>store := Some tb\<rparr> = w"
    by simp
  with Nil show ?case
    by (simp add: commit_def)
next
  case (Cons e xs)
  obtain c tgt where e: "e = (c, tgt)" by (cases e)
  from Cons.prems(3) have url: "\<not> startswith tgt ''/uploads/''"
    and rest: "\<forall>tgt \<in> snd ` set xs. \<not> startswith tgt ''/uploads/''"
    by (auto simp: e)
  have flt: "filter (\<lambda>r. code r \<notin> fst ` set xs) (delete_row c tb) =
        filter (\<lambda>r. code r \<notin> fst ` set (e # xs)) tb"
    by (auto simp: e delete_row_def intro: filter_cong)
  have "cleanup_for fails (e # xs) j w =
      cleanup_for fails xs Journal (w\<lparr>store := Some (delete_row c tb)\<rparr>)"
    using Cons.prems(1,2)
    by (simp add: e remove_artifact_url [OF url] delete_stmt_table)
  also have "\<dots> = (None, w\<lparr>store := Some (filter (\<lambda>r. code r \<notin> fst ` set xs) (delete_row c tb))\<rparr>)"
    using Cons.IH [of "w\<lparr>store := Some (delete_row c tb)\<rparr>" "delete_row c tb" Journal] rest
    by simp
  finally show ?case
    by (simp only: flt)
qed

lemma select_expired_codes:
  "primary_key tb \<Longrightarrow>
   filter (\<lambda>r. code r \<notin> fst ` set (select_expired now tb)) tb =
   filter (\<lambda>r. \<not> now - created_at r > DELETE_AFTER_SECONDS) tb"
  unfolding primary_key_def select_expired_def
  by (rule filter_cong) (auto simp: distinct_map inj_on_def image_iff)

lemma snd_select_expired:
  "snd ` set (select_expired now tb) =
     target ` {r \<in> set tb. now - created_at r > DELETE_AFTER_SECONDS}"
  by (auto simp: select_expired_def image_iff)

lemma select_expired_swept:
  "select_expired now (filter (\<lambda>r. code r \<notin> fst ` set (select_expired now tb)) tb) = []"
  by (auto simp: select_expired_def filter_empty_conv image_iff)

text \<open>
  One iteration of the cleanup loop at the clock reading \<open>clock\<close>, with
  \<open>now = int(clock)\<close>, on a table that respects its primary key and in which no expired
  target leads to the database file or its journal. The iteration does not raise, and
  \<^item> the rows left are exactly those for which \<open>now - created_at > DELETE_AFTER_SECONDS\<close>
    does not hold, whether or not any \<^verbatim>\<open>os.remove\<close> raised;
  \<^item> the files left are those that were there, less the file named by every expired
    target that starts with \<^verbatim>\<open>/uploads/\<close> and whose removal did not raise;
  \<^item> \<^verbatim>\<open>os.remove\<close> is called on exactly the files that are there when the iteration starts
    and that such a target names (a file that is already gone is skipped without an
    error, and a file named twice is removed once);
  \<^item> when no expired row has a target that starts with \<^verbatim>\<open>/uploads/\<close>, no file is touched
    and \<^verbatim>\<open>os.remove\<close> is not called.
\<close>

lemma cleanup_body_clear:
  assumes "store w = Some tb" and "primary_key tb"
    and "\<forall>r \<in> set tb. py_int clock - created_at r > DELETE_AFTER_SECONDS \<longrightarrow>
           \<not> touches_database w (target r)"
  shows "fst (cleanup_body fails clock w) = None
       \<and> store (snd (cleanup_body fails clock w)) =
           Some (filter (\<lambda>r. \<not> py_int clock - created_at r > DELETE_AFTER_SECONDS) tb)
       \<and> locate (snd (cleanup_body fails clock w)) = locate w
       \<and> files (snd (cleanup_body fails clock w)) =
           files w - {q. \<exists>r \<in> set tb. py_int clock - created_at r > DELETE_AFTER_SECONDS \<and>
                          startswith (target r) ''/uploads/'' \<and>
                          locate w (artifact_path (target r)) = Some q \<and> \<not> fails q}
       \<and> set (remove_calls (snd (cleanup_body fails clock w))) =
           set (remove_calls w) \<union>
             {q \<in> files w. \<exists>r \<in> set tb. py_int clock - created_at r > DELETE_AFTER_SECONDS \<and>
                          startswith (target r) ''/uploads/'' \<and>
                          locate w (artifact_path (target r)) = Some q}
       \<and> ((\<forall>r \<in> set tb. py_int clock - created_at r > DELETE_AFTER_SECONDS \<longrightarrow>
               \<not> startswith (target r) ''/uploads/'') \<longrightarrow>
            files (snd (cleanup_body fails clock w)) = files w \<and>
            remove_calls (snd (cleanup_body fails clock w)) = remove_calls w)"
proof -
  let ?xs = "select_expired (py_int clock) tb"
  have body: "cleanup_body fails clock w = cleanup_for fails ?xs No_journal w"
    using assms(1) by (simp add: cleanup_body_def)
  have clear: "\<forall>tgt \<in> snd ` set ?xs. \<not> touches_database w tgt"
    using assms(3) by (auto simp: snd_select_expired)
  note main = cleanup_for_clear [OF assms(1) _ clear, of No_journal fails, simplified]
  show ?thesis
    unfolding body
  proof (intro conjI impI)
    show "fst (cleanup_for fails ?xs No_journal w) = None"
      using main by simp
    show "store (snd (cleanup_for fails ?xs No_journal w)) =
        Some (filter (\<lambda>r. \<not> py_int clock - created_at r > DELETE_AFTER_SECONDS) tb)"
      using main select_expired_codes [OF assms(2)] by simp
    show "locate (snd (cleanup_for fails ?xs No_journal w)) = locate w"
      using main by simp
    have "files (snd (cleanup_for fails ?xs No_journal w)) =
        files w - {q. \<exists>tgt \<in> snd ` set ?xs. startswith tgt ''/uploads/'' \<and>
                          locate w (artifact_path tgt) = Some q \<and> \<not> fails q}"
      using main by blast
    then show "files (snd (cleanup_for fails ?xs No_journal w)) =
        files w - {q. \<exists>r \<in> set tb. py_int clock - created_at r > DELETE_AFTER_SECONDS \<and>
                          startswith (target r) ''/uploads/'' \<and>
                          locate w (artifact_path (target r)) = Some q \<and> \<not> fails q}"
      by (auto simp: snd_select_expired)
    have "set (remove_calls (snd (cleanup_for fails ?xs No_journal w))) =
        set (remove_calls w) \<union>
          {q \<in> files w. \<exists>tgt \<in> snd ` set ?xs. startswith tgt ''/uploads/'' \<and>
                          locate w (artifact_path tgt) = Some q}"
      using main by blast
    then show "set (remove_calls (snd (cleanup_for fails ?xs No_journal w))) =
        set (remove_calls w) \<union>
          {q \<in> files w. \<exists>r \<in> set tb. py_int clock - created_at r > DELETE_AFTER_SECONDS \<and>
                          startswith (target r) ''/uploads/'' \<and>
                          locate w (artifact_path (target r)) = Some q}"
      by (auto simp: snd_select_expired)
  next
    assume "\<forall>r \<in> set tb. py_int clock - created_at r > DELETE_AFTER_SECONDS \<longrightarrow>
               \<not> startswith (target r) ''/uploads/''"
    then have "\<forall>tgt \<in> snd ` set ?xs. \<not> startswith tgt ''/uploads/''"
      by (auto simp: snd_select_expired)
    from cleanup_for_urls [OF assms(1) _ this, of No_journal fails]
    show "files (snd (cleanup_for fails ?xs No_journal w)) = files w"
      and "remove_calls (snd (cleanup_for fails ?xs No_journal w)) = remove_calls w"
      by simp_all
  qed
qed

text \<open>
  A second iteration of the cleanup loop at the same clock reading, right after a first
  one in which no expired target leads to the database file or its journal, changes
  nothing and does not raise, whatever its \<^verbatim>\<open>os.remove\<close> would do.
\<close>

lemma cleanup_body_clear_twice:
  assumes "store w = Some tb"
    and "\<forall>r \<in> set tb. py_int clock - created_at r > DELETE_AFTER_SECONDS \<longrightarrow>
           \<not> touches_database w (target r)"
  shows "fst (cleanup_body fails clock w) = None
       \<and> cleanup_body fails' clock (snd (cleanup_body fails clock w)) =
           (None, snd (cleanup_body fails clock w))"
proof -
  let ?xs = "select_expired (py_int clock) tb"
  have body: "cleanup_body fails clock w = cleanup_for fails ?xs No_journal w"
    using assms(1) by (simp add: cleanup_body_def)
  have clear: "\<forall>tgt \<in> snd ` set ?xs. \<not> touches_database w tgt"
    using assms(2) by (auto simp: snd_select_expired)
  note main = cleanup_for_clear [OF assms(1) _ clear, of No_journal fails, simplified]
  from main have st: "store (snd (cleanup_body fails clock w)) =
      Some (filter (\<lambda>r. code r \<notin> fst ` set ?xs) tb)"
    unfolding body by simp
  have "cleanup_body fails' clock (snd (cleanup_body fails clock w)) =
      (None, snd (cleanup_body fails clock w))"
    by (simp add: cleanup_body_def [of fails' clock "snd (cleanup_body fails clock w)"] st
        select_expired_swept commit_def)
  with main show ?thesis
    unfolding body by simp
qed

text \<open>Whatever an iteration meets, all it does to the table is delete rows by their code.\<close>

lemma store_os_remove:
  assumes "os_remove fails path j w = Inr (j', w')"
  shows "store w' = store w \<or> store w' = None"
  using assms by (auto simp: os_remove_def split: option.splits if_splits)

lemma store_remove_artifact:
  "store (snd (remove_artifact fails tgt j w)) = store w \<or>
   store (snd (remove_artifact fails tgt j w)) = None"
proof (cases "os_remove fails (artifact_path tgt) j w")
  case (Inl err)
  then show ?thesis
    by (simp add: remove_artifact_def artifact_path_def Let_def split: option.splits)
next
  case (Inr p)
  obtain j' w' where p: "p = (j', w')" by (cases p)
  from store_os_remove [of fails "artifact_path tgt" j w j' w'] Inr p
  have "store w' = store w \<or> store w' = None"
    by simp
  with Inr p show ?thesis
    by (auto simp: remove_artifact_def artifact_path_def Let_def split: option.splits)
qed

lemma db_remove_artifact:
  "\<exists>X. db (snd (remove_artifact fails tgt j w)) = filter (\<lambda>r. code r \<notin> X) (db w)"
proof -
  from store_remove_artifact [of fails tgt j w]
  have "db (snd (remove_artifact fails tgt j w)) = filter (\<lambda>r. code r \<notin> {}) (db w) \<or>
        db (snd (remove_artifact fails tgt j w)) = filter (\<lambda>r. code r \<notin> UNIV) (db w)"
    by (auto simp: db_def)
  then show ?thesis by blast
qed

lemma db_delete_stmt:
  assumes "delete_stmt c j w = Inr (j', w')"
  shows "\<exists>X. db w' = filter (\<lambda>r. code r \<notin> X) (db w)"
proof (cases "store w")
  case None
  with assms have "db w' = filter (\<lambda>r. code r \<notin> {}) (db w)"
    by (auto simp: delete_stmt_def db_def split: if_splits)
  then show ?thesis ..
next
  case (Some tb)
  with assms have "db w' = filter (\<lambda>r. code r \<notin> {c}) (db w)"
    by (auto simp: delete_stmt_def db_def delete_row_def)
  then show ?thesis ..
qed

lemma filter_codes_twice:
  "filter (\<lambda>r. code r \<notin> Y) (filter (\<lambda>r. code r \<notin> X) tb) = filter (\<lambda>r. code r \<notin> X \<union> Y) tb"
  by (induction tb) auto

lemma db_cleanup_for:
  "\<exists>X. db (snd (cleanup_for fails xs j w)) = filter (\<lambda>r. code r \<notin> X) (db w)"
proof (induction xs arbitrary: j w)
  case Nil
  have "db (snd (cleanup_for fails [] j w)) = filter (\<lambda>r. code r \<notin> {}) (db w)"
    by (simp add: commit_def)
  then show ?case ..
next
  case (Cons e xs)
  obtain c tgt where e: "e = (c, tgt)" by (cases e)
  obtain j1 w1 where ra: "remove_artifact fails tgt j w = (j1, w1)"
    by (cases "remove_artifact fails tgt j w")
  from db_remove_artifact [of fails tgt j w] ra
  obtain X1 where X1: "db w1 = filter (\<lambda>r. code r \<notin> X1) (db w)"
    by auto
  show ?case
  proof (cases "delete_stmt c j1 w1")
    case (Inl err)
    with ra X1 have "db (snd (cleanup_for fails (e # xs) j w)) = filter (\<lambda>r. code r \<notin> X1) (db w)"
      by (simp add: e)
    then show ?thesis ..
  next
    case (Inr p)
    obtain j2 w2 where p: "p = (j2, w2)" by (cases p)
    from db_delete_stmt [of c j1 w1 j2 w2] Inr p
    obtain X2 where X2: "db w2 = filter (\<lambda>r. code r \<notin> X2) (db w1)"
      by auto
    from Cons.IH [of j2 w2]
    obtain X3 where X3: "db (snd (cleanup_for fails xs j2 w2)) = filter (\<lambda>r. code r \<notin> X3) (db w2)"
      by auto
    have "db (snd (cleanup_for fails (e # xs) j w)) = filter (\<lambda>r. code r \<notin> X1 \<union> X2 \<union> X3) (db w)"
      using ra Inr p by (simp add: e X3 X2 X1 filter_codes_twice)
    then show ?thesis ..
  qed
qed

lemma db_cleanup_body:
  "\<exists>X. db (snd (cleanup_body fails clock w)) = filter (\<lambda>r. code r \<notin> X) (db w)"
proof (cases "store w")
  case None
  then have "db (snd (cleanup_body fails clock w)) = filter (\<lambda>r. code r \<notin> {}) (db w)"
    by (simp add: cleanup_body_def)
  then show ?thesis ..
next
  case (Some tb)
  with db_cleanup_for [of fails "select_expired (py_int clock) tb" No_journal w]
  show ?thesis
    by (simp add: cleanup_body_def)
qed

section \<open>Generated codes\<close>

lemma alphabet_eq:
  "ascii_letters @ digits =
     ''abcdefghijklmnopqrstuvwxyzABCDEFGHIJKLMNOPQRSTUVWXYZ0123456789''"
  by (simp add: ascii_letters_def ascii_lowercase_def ascii_uppercase_def digits_def)

lemma length_alphabet: "length (ascii_letters @ digits) = 62"
  by (simp add: alphabet_eq)

lemma distinct_alphabet: "distinct (ascii_letters @ digits)"
  by (simp add: alphabet_eq)

lemma length_random_choices: "length (random_choices rnd population k) = nat k"
  by (simp add: random_choices_def)

lemma unit_index:
  assumes "0 \<le> u" and "u < 1" and "0 < n"
  shows "nat \<lfloor>u * real n\<rfloor> < n"
proof -
  have "u * real n < real n"
    using assms by simp
  then have "\<lfloor>u * real n\<rfloor> < int n"
    by (simp add: floor_less_iff)
  moreover have "0 \<le> \<lfloor>u * real n\<rfloor>"
    using assms by simp
  ultimately show ?thesis by linarith
qed

lemma set_random_choices:
  assumes "\<forall>i. 0 \<le> rnd i \<and> rnd i < 1" and "population \<noteq> []"
  shows "set (random_choices rnd population k) \<subseteq> set population"
proof -
  from assms(2) have "0 < length population" by simp
  with assms(1) have "nat \<lfloor>rnd i * real (length population)\<rfloor> < length population" for i
    by (simp add: unit_index)
  then show ?thesis
    by (auto simp: random_choices_def)
qed

lemma generate_code_half: "generate_code (\<lambda>i. 1 / 2) 6 = ''FFFFFF''"
  by (simp add: generate_code_def random_choices_def alphabet_eq upt_conv_Cons)

text \<open>
  C6. With every value of \<^verbatim>\<open>random()\<close> in the interval from 0 to 1 (1 excluded),
  \<^verbatim>\<open>generate_code(len)\<close> has exactly \<open>len\<close> characters for every \<open>len\<close> from 0 on, and 6
  for the default; each character is an upper-case letter, a lower-case letter or a
  digit, an alphabet of 62 symbols.
\<close>

theorem generate_code_length_alphabet:
  assumes "\<forall>i. 0 \<le> rnd i \<and> rnd i < 1"
  shows "(0 \<le> len \<longrightarrow> int (length (generate_code rnd len)) = len)
       \<and> length (generate_code rnd 6) = 6
       \<and> set (generate_code rnd len) \<subseteq> set ascii_uppercase \<union> set ascii_lowercase \<union> set digits
       \<and> card (set ascii_uppercase \<union> set ascii_lowercase \<union> set digits) = 62"
proof (intro conjI impI)
  assume "0 \<le> len"
  then show "int (length (generate_code rnd len)) = len"
    by (simp add: generate_code_def length_random_choices)
next
  show "length (generate_code rnd 6) = 6"
    by (simp add: generate_code_def length_random_choices)
next
  have "set (generate_code rnd len) \<subseteq> set (ascii_letters @ digits)"
    unfolding generate_code_def
    by (rule set_random_choices [OF assms]) (simp add: alphabet_eq)
  then show "set (generate_code rnd len) \<subseteq> set ascii_uppercase \<union> set ascii_lowercase \<union> set digits"
    by (auto simp: ascii_letters_def)
next
  have "set ascii_uppercase \<union> set ascii_lowercase \<union> set digits = set (ascii_letters @ digits)"
    by (auto simp: ascii_letters_def)
  then show "card (set ascii_uppercase \<union> set ascii_lowercase \<union> set digits) = 62"
    using distinct_card [OF distinct_alphabet] by (simp only: length_alphabet)
qed

theorem generate_code_length_alphabet_witness:
  "(\<forall>i::nat. (0::real) \<le> 1 / 2 \<and> (1::real) / 2 < 1)
   \<and> generate_code (\<lambda>i. 1 / 2) 6 = ''FFFFFF''
   \<and> length (generate_code (\<lambda>i. 1 / 2) 6) = 6
   \<and> set (generate_code (\<lambda>i. 1 / 2) 6) \<subseteq> set ascii_uppercase \<union> set ascii_lowercase \<union> set digits"
proof -
  have unit: "\<forall>i::nat. (0::real) \<le> 1 / 2 \<and> (1::real) / 2 < 1"
    by simp
  with generate_code_half generate_code_length_alphabet [OF unit, of 6] show ?thesis
    by simp
qed

section \<open>Uploads\<close>

lemma strip_empty_iff: "strip s = [] \<longleftrightarrow> (\<forall>ch \<in> set s. isspace ch)"
proof
  assume "strip s = []"
  then have all: "\<forall>ch \<in> set (dropWhile isspace s). isspace ch"
    by (simp add: strip_def dropWhile_eq_Nil_conv)
  have "dropWhile isspace s = []"
  proof (rule ccontr)
    assume ne: "dropWhile isspace s \<noteq> []"
    then have "\<not> isspace (hd (dropWhile isspace s))"
      by (rule hd_dropWhile)
    moreover from ne have "hd (dropWhile isspace s) \<in> set (dropWhile isspace s)"
      by simp
    ultimately show False using all by blast
  qed
  then show "\<forall>ch \<in> set s. isspace ch"
    by (simp add: dropWhile_eq_Nil_conv)
next
  assume "\<forall>ch \<in> set s. isspace ch"
  then show "strip s = []"
    by (auto simp: strip_def dropWhile_eq_Nil_conv dest: set_dropWhileD)
qed

lemma length_generate_code_6: "length (generate_code rnd 6) = 6"
  by (simp add: generate_code_def length_random_choices)

lemma chosen_code_nonempty: "chosen_code rnd form \<noteq> []"
  using length_generate_code_6 [of rnd] by (auto simp: chosen_code_def Let_def)

lemma file_save_store:
  assumes "file_save path w = Inr w1"
  shows "store w1 = store w \<or> store w1 = None"
  using assms by (auto simp: file_save_def split: option.splits if_splits)

lemma save_mapping_call_Inr:
  assumes "save_mapping_call clock c tgt w = Inr w2"
  shows "db w2 = save_mapping clock c tgt (db w) \<and> store w \<noteq> None"
  using assms by (auto simp: save_mapping_call_def db_def split: option.splits)

lemma save_mapping_call_Inl:
  assumes "save_mapping_call clock c tgt w = Inl e"
  shows "store w = None"
  using assms by (auto simp: save_mapping_call_def split: option.splits)

lemma upload_file_accepted:
  assumes "upload_file ip sf rnd clock form w = (Inr (Short_url u), w')"
  shows "u = make_short ip (chosen_code rnd form) \<and>
         (\<exists>tgt. db w' = save_mapping clock (chosen_code rnd form) tgt (db w))"
proof -
  have via_file: "db w2 = save_mapping clock c tgt (db w)"
    if "file_save path w = Inr w1" and "save_mapping_call clock c tgt w1 = Inr w2"
    for path w1 w2 c tgt
  proof -
    from save_mapping_call_Inr [OF that(2)]
    have "db w2 = save_mapping clock c tgt (db w1)" and "store w1 \<noteq> None"
      by simp_all
    moreover from file_save_store [OF that(1)] \<open>store w1 \<noteq> None\<close> have "db w1 = db w"
      by (auto simp: db_def)
    ultimately show ?thesis by simp
  qed
  from assms show ?thesis
    by (auto simp: upload_file_def Let_def via_file
        split: if_splits sum.splits dest: save_mapping_call_Inr)
qed

lemma upload_file_refused:
  assumes "upload_file ip sf rnd clock form w = (Inr (Error_message m), w')"
  shows "w' = w"
  using assms by (auto simp: upload_file_def Let_def split: if_splits sum.splits)

lemma db_upload_file:
  "db (snd (upload_file ip sf rnd clock form w)) = db w \<or>
   db (snd (upload_file ip sf rnd clock form w)) = [] \<or>
   (\<exists>tgt. db (snd (upload_file ip sf rnd clock form w)) =
           save_mapping clock (chosen_code rnd form) tgt (db w))"
proof (cases "upload_file ip sf rnd clock form w")
  case (Pair res w')
  show ?thesis
  proof (cases res)
    case (Inr page)
    show ?thesis
    proof (cases page)
      case (Short_url u)
      with Pair Inr upload_file_accepted [of ip sf rnd clock form w u w'] show ?thesis
        by auto
    next
      case (Error_message m)
      with Pair Inr upload_file_refused [of ip sf rnd clock form w m w'] show ?thesis
        by auto
    qed
  next
    case (Inl err)
    have "db w' = db w \<or> db w' = []"
      using Pair Inl
      by (auto simp: upload_file_def Let_def db_def
          split: if_splits sum.splits dest!: save_mapping_call_Inl file_save_store)
    with Pair show ?thesis by auto
  qed
qed

section \<open>What an event does to the table\<close>

lemma get_row_filter_codes:
  "get_row (filter (\<lambda>r. code r \<notin> X) tb) c = (if c \<in> X then None else get_row tb c)"
  by (induction tb) (auto simp: get_row_def)

lemma get_row_Nil: "get_row [] c = None"
  by (simp add: get_row_def)

lemma db_get_code:
  "db (step ip sf (Get_code fails clock c) w) =
     (case get_row (db w) c of
        None \<Rightarrow> db w
      | Some r \<Rightarrow>
          if clock - real_of_int (created_at r) > real_of_int DELETE_AFTER_SECONDS \<or> fails
          then db w
          else map (\<lambda>r. if code r = c then r\<lparr>hits := hits r + 1\<rparr> else r) (db w))"
proof (cases "store w")
  case None
  then show ?thesis
    by (simp add: redirect_code_def db_def get_row_def)
next
  case (Some tb)
  then show ?thesis
    by (auto simp: redirect_code_def update_hits_def db_def
        split: option.splits dest: get_row_SomeD)
qed

lemma db_cleanup_tick:
  "\<exists>X. db (step ip sf (Cleanup_tick fails clock) w) = filter (\<lambda>r. code r \<notin> X) (db w)"
  using db_cleanup_body [of fails clock w] by simp

lemma hits_nonneg_step:
  assumes "hits_nonneg (db w)"
  shows "hits_nonneg (db (step ip sf e w))"
proof (cases e)
  case (Post_upload rnd clock form)
  with assms db_upload_file [of ip sf rnd clock form w] show ?thesis
    by (auto simp: hits_nonneg_def save_mapping_def)
next
  case (Get_code fails clock c)
  with assms show ?thesis
    unfolding Get_code db_get_code
    by (auto simp: hits_nonneg_def split: option.splits)
next
  case (Get_metadata clock c)
  with assms show ?thesis by simp
next
  case (Cleanup_tick fails clock)
  with assms db_cleanup_tick [of ip sf fails clock w] show ?thesis
    by (auto simp: hits_nonneg_def)
qed

lemma hits_nonneg_run:
  "hits_nonneg (db w) \<Longrightarrow> hits_nonneg (db (run ip sf es w))"
  by (induction es arbitrary: w) (auto intro: hits_nonneg_step)

lemma hits_nonneg_startup: "hits_nonneg (db (startup loc fs))"
  by (simp add: startup_def init_db_def hits_nonneg_def db_def)

lemma primary_key_bump:
  "primary_key (map (\<lambda>r. if code r = c then r\<lparr>hits := hits r + 1\<rparr> else r) tb) = primary_key tb"
proof -
  have "map code (map (\<lambda>r. if code r = c then r\<lparr>hits := hits r + 1\<rparr> else r) tb) = map code tb"
    by (induction tb) auto
  then show ?thesis
    unfolding primary_key_def by (rule arg_cong)
qed

lemma primary_key_step:
  assumes "primary_key (db w)"
  shows "primary_key (db (step ip sf e w))"
proof (cases e)
  case (Post_upload rnd clock form)
  with assms db_upload_file [of ip sf rnd clock form w] show ?thesis
    by (auto simp: primary_key_save_mapping) (simp add: primary_key_def)
next
  case (Get_code fails clock c)
  with assms show ?thesis
    unfolding Get_code db_get_code
    by (auto simp: primary_key_bump split: option.splits)
next
  case (Get_metadata clock c)
  with assms show ?thesis by simp
next
  case (Cleanup_tick fails clock)
  with assms db_cleanup_tick [of ip sf fails clock w] show ?thesis
    by (auto simp: primary_key_def distinct_map_filter)
qed

lemma primary_key_run:
  "primary_key (db w) \<Longrightarrow> primary_key (db (run ip sf es w))"
  by (induction es arbitrary: w) (auto intro: primary_key_step)

lemma primary_key_startup: "primary_key (db (startup loc fs))"
  by (simp add: startup_def init_db_def primary_key_def db_def)

lemma step_new_row:
  assumes "get_row (db w) c = None" and "get_row (db (step ip sf e w)) c = Some r'"
  shows "hits r' = 0"
proof (cases e)
  case (Post_upload rnd clock form)
  with assms db_upload_file [of ip sf rnd clock form w] show ?thesis
    by (cases "c = chosen_code rnd form")
       (auto simp: get_row_save_mapping_same get_row_save_mapping_other get_row_Nil)
next
  case (Get_code fails clock c')
  with assms show ?thesis
    unfolding Get_code db_get_code
    by (auto simp: get_row_bump split: option.splits if_splits)
next
  case (Get_metadata clock c')
  with assms show ?thesis by simp
next
  case (Cleanup_tick fails clock)
  with assms db_cleanup_tick [of ip sf fails clock w] show ?thesis
    by (auto simp: get_row_filter_codes split: if_splits)
qed

lemma step_row:
  assumes "hits_nonneg (db w)"
    and "get_row (db w) c = Some r" and "get_row (db (step ip sf e w)) c = Some r'"
  shows "r' = r
       \<or> (r' = r\<lparr>hits := hits r + 1\<rparr> \<and>
          (\<exists>clock. e = Get_code False clock c \<and>
                    \<not> clock - real_of_int (created_at r) > real_of_int DELETE_AFTER_SECONDS))
       \<or> (hits r' = 0 \<and> (\<exists>rnd clock form. e = Post_upload rnd clock form \<and>
                                          chosen_code rnd form = c))"
proof (cases e)
  case (Post_upload rnd clock form)
  with assms db_upload_file [of ip sf rnd clock form w] show ?thesis
    by (cases "c = chosen_code rnd form")
       (auto simp: get_row_save_mapping_same get_row_save_mapping_other get_row_Nil)
next
  case (Get_code fails clock c')
  with assms show ?thesis
    unfolding Get_code db_get_code
    by (cases "c' = c") (auto simp: get_row_bump split: option.splits if_splits dest: get_row_SomeD)
next
  case (Get_metadata clock c')
  with assms show ?thesis by simp
next
  case (Cleanup_tick fails clock)
  with assms db_cleanup_tick [of ip sf fails clock w] show ?thesis
    by (auto simp: get_row_filter_codes split: if_splits)
qed

lemma step_live_lookup:
  assumes "get_row (db w) c = Some r"
    and "\<not> clock - real_of_int (created_at r) > real_of_int DELETE_AFTER_SECONDS"
  shows "get_row (db (step ip sf (Get_code False clock c) w)) c = Some (r\<lparr>hits := hits r + 1\<rparr>)"
  using assms get_row_SomeD [OF assms(1)]
  unfolding db_get_code by (simp add: get_row_bump)

section \<open>The example states\<close>

lemma locate0_simps:
  "locate0 ''urls.db'' = Some ''/app/urls.db''"
  "locate0 ''urls.db-journal'' = Some ''/app/urls.db-journal''"
  "locate0 ''static/uploads/../../urls.db'' = Some ''/app/urls.db''"
  "locate0 ''static/uploads/1_a.png'' = Some ''/app/static/uploads/1_a.png''"
  "locate0 ''static/uploads/500_b.png'' = Some ''/app/static/uploads/500_b.png''"
  "locate0 ''static/uploads/1700_a.png'' = Some ''/app/static/uploads/1700_a.png''"
  by (simp_all add: locate0_def)

lemma artifact_path_simps:
  "artifact_path ''/uploads/1_a.png'' = ''static/uploads/1_a.png''"
  "artifact_path ''/uploads/500_b.png'' = ''static/uploads/500_b.png''"
  "artifact_path ''/uploads/../../urls.db'' = ''static/uploads/../../urls.db''"
  by (simp_all add: artifact_path_def UPLOAD_FOLDER_eq os_path_join_def suffix_def)

lemma run_form1:
  "run ''127.0.0.1'' (\<lambda>n. n) [Post_upload (\<lambda>i. 0) 0 form1] (startup locate0 {}) =
   \<lparr>store = Some
       [\<lparr>code = ''abc123'', target = ''https://example.com'', created_at = 0, hits = 0\<rparr>],
    locate = locate0, files = {}, remove_calls = []\<rparr>"
  by (simp add: startup_def init_db_def upload_file_def form1_def has_file_def form_get_def
      chosen_code_def strip_def isspace_def save_mapping_def save_mapping_call_def Let_def)

lemma upload_form2:
  "upload_file ''127.0.0.1'' (\<lambda>n. n) (\<lambda>i. 1 / 2) 1700 form2 (startup locate0 {}) =
   (Inr (Short_url ''http://127.0.0.1:5050/FFFFFF''),
    \<lparr>store = Some
       [\<lparr>code = ''FFFFFF'', target = ''/uploads/1700_a.png'', created_at = 1700, hits = 0\<rparr>],
     locate = locate0, files = {''/app/static/uploads/1700_a.png''}, remove_calls = []\<rparr>)"
  by (simp add: startup_def init_db_def upload_file_def form2_def has_file_def form_get_def
      chosen_code_def strip_def isspace_def save_mapping_def save_mapping_call_def
      file_save_def py_str_def digits_def DB_FILE_def locate0_simps
      UPLOAD_FOLDER_eq os_path_join_def suffix_def make_short_def BASE_URL_def PORT_def Let_def
      generate_code_half)

lemma run_w_db:
  "run ''127.0.0.1'' (\<lambda>n. n)
     [Post_upload (\<lambda>i. 0) 0 form_db, Post_upload (\<lambda>i. 0) 500 form_keep]
     (startup locate0 {}) = w_db"
  by (simp add: startup_def init_db_def upload_file_def form_db_def form_keep_def has_file_def
      form_get_def chosen_code_def strip_def isspace_def save_mapping_def save_mapping_call_def
      Let_def w_db_def)

lemma sweep_w_db:
  "cleanup_body (\<lambda>q. False) 601 w_db =
     (Some OperationalError, w_db\<lparr>store := None, remove_calls := [''/app/urls.db'']\<rparr>)"
  by (simp add: w_db_def cleanup_body_def select_expired_def DELETE_AFTER_SECONDS_def
      remove_artifact_def startswith_def os_remove_def os_path_isfile_def delete_stmt_def
      UPLOAD_FOLDER_eq os_path_join_def suffix_def locate0_simps DB_FILE_def Let_def)

lemma sweep_w_db_again:
  "cleanup_body fails clock (w_db\<lparr>store := None, remove_calls := [''/app/urls.db'']\<rparr>) =
     (Some OperationalError, w_db\<lparr>store := None, remove_calls := [''/app/urls.db'']\<rparr>)"
  by (simp add: cleanup_body_def)

section \<open>A sweep that removes the database\<close>

text \<open>
  C3 at an input on which the code does not do what the claim says. A URL that starts
  with \<^verbatim>\<open>/uploads/\<close> is stored unchecked by the upload handler, and the cleanup takes every
  such target for a file under the upload folder without confining the path. Two uploads
  through the URL field lead from startup to the state \<open>w_db\<close>; the row \<^verbatim>\<open>keep\<close> is not
  expired at time 601. The sweep at time 601 calls \<^verbatim>\<open>os.remove\<close> for the URL-backed row
  \<^verbatim>\<open>evil\<close>, on the database file; the \<^verbatim>\<open>DELETE\<close> of that row then raises out of
  \<^verbatim>\<open>cleanup\<close>, and the row \<^verbatim>\<open>keep\<close> is gone with the table.
\<close>

theorem cleanup_removes_database:
  "run ''127.0.0.1'' (\<lambda>n. n)
     [Post_upload (\<lambda>i. 0) 0 form_db, Post_upload (\<lambda>i. 0) 500 form_keep]
     (startup locate0 {}) = w_db
   \<and> get_row (db w_db) ''keep'' =
       Some \<lparr>code = ''keep'', target = ''https://example.com'', created_at = 500, hits = 0\<rparr>
   \<and> \<not> py_int 601 - 500 > DELETE_AFTER_SECONDS
   \<and> cleanup_body (\<lambda>q. False) 601 w_db =
       (Some OperationalError, w_db\<lparr>store := None, remove_calls := [''/app/urls.db'']\<rparr>)
   \<and> get_row (db (snd (cleanup_body (\<lambda>q. False) 601 w_db))) ''keep'' = None"
proof -
  have "get_row (db w_db) ''keep'' =
       Some \<lparr>code = ''keep'', target = ''https://example.com'', created_at = 500, hits = 0\<rparr>"
    by (simp add: w_db_def db_def get_row_def)
  moreover have "\<not> py_int 601 - 500 > DELETE_AFTER_SECONDS"
    by (simp add: DELETE_AFTER_SECONDS_def)
  moreover have "get_row (db (snd (cleanup_body (\<lambda>q. False) 601 w_db))) ''keep'' = None"
    by (simp add: sweep_w_db db_def get_row_def)
  ultimately show ?thesis
    using run_w_db sweep_w_db by simp
qed

text \<open>
  C4 at the same input. The first sweep at time 601 raises and leaves the database
  without its table; a second sweep right after it raises again, on its \<^verbatim>\<open>SELECT\<close>. The
  loop of \<^verbatim>\<open>cleanup\<close> itself ends with the first exception.
\<close>

theorem cleanup_twice_raises:
  "fst (cleanup_body (\<lambda>q. False) 601 w_db) = Some OperationalError
   \<and> store (snd (cleanup_body (\<lambda>q. False) 601 w_db)) = None
   \<and> fst (cleanup_body (\<lambda>q. False) 601 (snd (cleanup_body (\<lambda>q. False) 601 w_db))) =
       Some OperationalError
   \<and> cleanup [(\<lambda>q. False, 601), (\<lambda>q. False, 601)] w_db =
       (Some OperationalError, w_db\<lparr>store := None, remove_calls := [''/app/urls.db'']\<rparr>)"
  by (simp add: sweep_w_db sweep_w_db_again)

section \<open>The history of a counter\<close>

text \<open>
  C8, as the code has it. In every state \<open>w\<close> that a run of the application reaches from
  startup, and for every next event \<open>e\<close>:
  \<^item> the counter of every row is non-negative;
  \<^item> a row that \<open>e\<close> brings into the table has \<open>hits = 0\<close>;
  \<^item> a row that is there before and after \<open>e\<close> is unchanged, or has its counter raised by
    one, or is the row of a new upload under its code, with \<open>hits = 0\<close>; so but for a
    replacement, which starts the row anew, a counter only ever increases;
  \<^item> if the counter of the row of a code is higher after \<open>e\<close> than before, it is higher by
    one and \<open>e\<close> is a lookup of that code whose hit update did not raise, at a clock
    reading at which the row is not expired; so an upload (new code or replacement), a
    metadata read, a lookup that finds no row or an expired one, and a cleanup iteration
    never raise it;
  \<^item> if it is lower, it is 0 and \<open>e\<close> is an upload under that code;
  \<^item> every such lookup raises the counter by one, whatever files exist: the handler
    updates the counter before it hands the target to \<^verbatim>\<open>send_from_directory\<close> or
    \<^verbatim>\<open>redirect\<close>.
\<close>

theorem hits_raised_only_by_live_lookup:
  assumes "w = run ip sf es (startup loc fs)"
  shows "hits_nonneg (db w)
       \<and> (get_row (db w) c = None \<and> get_row (db (step ip sf e w)) c = Some r' \<longrightarrow> hits r' = 0)
       \<and> (get_row (db w) c = Some r \<and> get_row (db (step ip sf e w)) c = Some r' \<longrightarrow>
            r' = r
            \<or> (r' = r\<lparr>hits := hits r + 1\<rparr> \<and>
               (\<exists>clock. e = Get_code False clock c \<and>
                  \<not> clock - real_of_int (created_at r) > real_of_int DELETE_AFTER_SECONDS))
            \<or> (hits r' = 0 \<and> (\<exists>rnd clock form. e = Post_upload rnd clock form \<and>
                                               chosen_code rnd form = c)))
       \<and> (get_row (db w) c = Some r \<and> get_row (db (step ip sf e w)) c = Some r' \<and>
            hits r < hits r' \<longrightarrow>
            hits r' = hits r + 1 \<and>
            (\<exists>clock. e = Get_code False clock c \<and>
                      \<not> clock - real_of_int (created_at r) > real_of_int DELETE_AFTER_SECONDS))
       \<and> (get_row (db w) c = Some r \<and> get_row (db (step ip sf e w)) c = Some r' \<and>
            hits r' < hits r \<longrightarrow>
            hits r' = 0 \<and>
            (\<exists>rnd clock form. e = Post_upload rnd clock form \<and> chosen_code rnd form = c))
       \<and> (get_row (db w) c = Some r \<and>
            \<not> clock - real_of_int (created_at r) > real_of_int DELETE_AFTER_SECONDS \<longrightarrow>
            get_row (db (step ip sf (Get_code False clock c) w)) c =
              Some (r\<lparr>hits := hits r + 1\<rparr>))"
proof -
  have inv: "hits_nonneg (db w)"
    unfolding assms by (rule hits_nonneg_run [OF hits_nonneg_startup])
  have nonneg: "0 \<le> hits r" if "get_row (db w) c = Some r"
    using inv get_row_SomeD [OF that] by (auto simp: hits_nonneg_def)
  have cases: "r' = r
      \<or> (r' = r\<lparr>hits := hits r + 1\<rparr> \<and>
         (\<exists>clock. e = Get_code False clock c \<and>
            \<not> clock - real_of_int (created_at r) > real_of_int DELETE_AFTER_SECONDS))
      \<or> (hits r' = 0 \<and> (\<exists>rnd clock form. e = Post_upload rnd clock form \<and>
                                         chosen_code rnd form = c))"
    if "get_row (db w) c = Some r" and "get_row (db (step ip sf e w)) c = Some r'"
    using inv that by (rule step_row)
  show ?thesis
  proof (intro conjI impI)
    show "hits_nonneg (db w)"
      by (rule inv)
  next
    assume "get_row (db w) c = None \<and> get_row (db (step ip sf e w)) c = Some r'"
    then show "hits r' = 0"
      using step_new_row by blast
  next
    assume "get_row (db w) c = Some r \<and> get_row (db (step ip sf e w)) c = Some r'"
    then show "r' = r
      \<or> (r' = r\<lparr>hits := hits r + 1\<rparr> \<and>
         (\<exists>clock. e = Get_code False clock c \<and>
            \<not> clock - real_of_int (created_at r) > real_of_int DELETE_AFTER_SECONDS))
      \<or> (hits r' = 0 \<and> (\<exists>rnd clock form. e = Post_upload rnd clock form \<and>
                                         chosen_code rnd form = c))"
      using cases by blast
  next
    assume a: "get_row (db w) c = Some r \<and> get_row (db (step ip sf e w)) c = Some r' \<and>
            hits r < hits r'"
    with cases nonneg
    have "r' = r\<lparr>hits := hits r + 1\<rparr> \<and>
         (\<exists>clock. e = Get_code False clock c \<and>
            \<not> clock - real_of_int (created_at r) > real_of_int DELETE_AFTER_SECONDS)"
      by auto
    then show "hits r' = hits r + 1"
      and "\<exists>clock. e = Get_code False clock c \<and>
            \<not> clock - real_of_int (created_at r) > real_of_int DELETE_AFTER_SECONDS"
      by simp_all
  next
    assume a: "get_row (db w) c = Some r \<and> get_row (db (step ip sf e w)) c = Some r' \<and>
            hits r' < hits r"
    with cases
    have "hits r' = 0 \<and> (\<exists>rnd clock form. e = Post_upload rnd clock form \<and>
                                         chosen_code rnd form = c)"
      by auto
    then show "hits r' = 0"
      and "\<exists>rnd clock form. e = Post_upload rnd clock form \<and> chosen_code rnd form = c"
      by simp_all
  next
    assume "get_row (db w) c = Some r \<and>
            \<not> clock - real_of_int (created_at r) > real_of_int DELETE_AFTER_SECONDS"
    then show "get_row (db (step ip sf (Get_code False clock c) w)) c =
              Some (r\<lparr>hits := hits r + 1\<rparr>)"
      using step_live_lookup by blast
  qed
qed

theorem hits_raised_only_by_live_lookup_witness:
  "run ''127.0.0.1'' (\<lambda>n. n) [Post_upload (\<lambda>i. 0) 0 form1] (startup locate0 {}) =
     \<lparr>store = Some
         [\<lparr>code = ''abc123'', target = ''https://example.com'', created_at = 0, hits = 0\<rparr>],
      locate = locate0, files = {}, remove_calls = []\<rparr>
   \<and> \<not> 599 - real_of_int 0 > real_of_int DELETE_AFTER_SECONDS
   \<and> get_row (db (step ''127.0.0.1'' (\<lambda>n. n) (Get_code False 599 ''abc123'')
         (run ''127.0.0.1'' (\<lambda>n. n) [Post_upload (\<lambda>i. 0) 0 form1] (startup locate0 {}))))
       ''abc123'' =
       Some \<lparr>code = ''abc123'', target = ''https://example.com'', created_at = 0, hits = 1\<rparr>"
proof -
  let ?w = "run ''127.0.0.1'' (\<lambda>n. n) [Post_upload (\<lambda>i. 0) 0 form1] (startup locate0 {})"
  let ?r = "\<lparr>code = ''abc123'', target = ''https://example.com'', created_at = 0, hits = 0\<rparr>"
  have row: "get_row (db ?w) ''abc123'' = Some ?r"
    unfolding run_form1 by (simp add: get_row_def db_def)
  have early: "\<not> 599 - real_of_int 0 > real_of_int DELETE_AFTER_SECONDS"
    by (simp add: DELETE_AFTER_SECONDS_def)
  then have live: "\<not> 599 - real_of_int (created_at ?r) > real_of_int DELETE_AFTER_SECONDS"
    by simp
  have raised: "?r\<lparr>hits := hits ?r + 1\<rparr> =
      \<lparr>code = ''abc123'', target = ''https://example.com'', created_at = 0, hits = 1\<rparr>"
    by simp
  note inst = hits_raised_only_by_live_lookup [OF refl,
      of "''127.0.0.1''" "\<lambda>n. n" "[Post_upload (\<lambda>i. 0) 0 form1]" locate0 "{}" "''abc123''"
         "Get_code False 599 ''abc123''" ?r ?r 599]
  from inst row live
  have "get_row (db (step ''127.0.0.1'' (\<lambda>n. n) (Get_code False 599 ''abc123'') ?w)) ''abc123'' =
      Some (?r\<lparr>hits := hits ?r + 1\<rparr>)"
    by blast
  then have "get_row (db (step ''127.0.0.1'' (\<lambda>n. n) (Get_code False 599 ''abc123'') ?w)) ''abc123'' =
      Some \<lparr>code = ''abc123'', target = ''https://example.com'', created_at = 0, hits = 1\<rparr>"
    by (simp only: raised)
  with run_form1 early show ?thesis
    by blast
qed

text \<open>
  C8 as stated fails where it says that a lookup whose file artifact is missing does not
  raise the counter: the row below is not expired, its artifact is no file, and the lookup
  leaves \<open>hits = 1\<close>.
\<close>

theorem missing_artifact_counterexample:
  "\<not> os_path_isfile No_journal w_missing (artifact_path ''/uploads/1_a.png'')
   \<and> redirect_code False 1 ''x'' w_missing =
       Inr (Send_from_directory ''static/uploads'' ''1_a.png'',
            w_missing\<lparr>store := Some
              [\<lparr>code = ''x'', target = ''/uploads/1_a.png'', created_at = 0, hits = 1\<rparr>]\<rparr>)"
  by (simp add: w_missing_def redirect_code_def get_row_def DELETE_AFTER_SECONDS_def
      update_hits_def deliver_def startswith_def UPLOAD_FOLDER_eq os_path_isfile_def
      artifact_path_simps locate0_simps DB_FILE_def)

section \<open>The key of an upload\<close>

lemma empty_key_step:
  assumes "[] \<notin> code ` set (db w)"
  shows "[] \<notin> code ` set (db (step ip sf e w))"
proof (cases e)
  case (Post_upload rnd clock form)
  with assms db_upload_file [of ip sf rnd clock form w] chosen_code_nonempty [of rnd form]
  show ?thesis
    by (auto simp: save_mapping_def)
next
  case (Get_code fails clock c)
  with assms show ?thesis
    unfolding Get_code db_get_code
    by (auto split: option.splits if_splits)
next
  case (Get_metadata clock c)
  with assms show ?thesis by simp
next
  case (Cleanup_tick fails clock)
  with assms db_cleanup_tick [of ip sf fails clock w] show ?thesis
    by auto
qed

lemma empty_key_run:
  "[] \<notin> code ` set (db w) \<Longrightarrow> [] \<notin> code ` set (db (run ip sf es w))"
proof (induction es arbitrary: w)
  case Nil
  then show ?case by simp
next
  case (Cons e es)
  from Cons.prems have "[] \<notin> code ` set (db (step ip sf e w))"
    by (rule empty_key_step)
  then show ?case
    by (simp add: Cons.IH)
qed

text \<open>
  C10. The key of an upload is the code field of the form, stripped, unless that is empty
  (the field is absent, empty or all whitespace): then it is a generated code, which has
  6 characters. The key is never the empty string. An upload that is accepted saves its
  mapping under this key; an upload that is refused changes nothing. In no state that a
  run of the application reaches from startup does a row carry the empty string as code.
\<close>

theorem upload_file_key:
  "length (generate_code rnd 6) = 6
   \<and> ((\<forall>ch \<in> set (form_get (code_field form)). isspace ch) \<longrightarrow>
        chosen_code rnd form = generate_code rnd 6)
   \<and> (\<not> (\<forall>ch \<in> set (form_get (code_field form)). isspace ch) \<longrightarrow>
        chosen_code rnd form = strip (form_get (code_field form)))
   \<and> chosen_code rnd form \<noteq> []
   \<and> (upload_file ip sf rnd clock form w = (Inr (Short_url u), w') \<longrightarrow>
        u = make_short ip (chosen_code rnd form) \<and>
        (\<exists>tgt. db w' = save_mapping clock (chosen_code rnd form) tgt (db w) \<and>
               get_row (db w') (chosen_code rnd form) =
                 Some \<lparr>code = chosen_code rnd form, target = tgt,
                       created_at = py_int clock, hits = 0\<rparr>))
   \<and> (upload_file ip sf rnd clock form w = (Inr (Error_message m), w') \<longrightarrow> w' = w)
   \<and> [] \<notin> code ` set (db (run ip sf es (startup loc fs)))"
proof (intro conjI impI)
  show "length (generate_code rnd 6) = 6"
    by (rule length_generate_code_6)
next
  assume "\<forall>ch \<in> set (form_get (code_field form)). isspace ch"
  then show "chosen_code rnd form = generate_code rnd 6"
    by (simp add: chosen_code_def strip_empty_iff)
next
  assume "\<not> (\<forall>ch \<in> set (form_get (code_field form)). isspace ch)"
  then show "chosen_code rnd form = strip (form_get (code_field form))"
    by (simp add: chosen_code_def strip_empty_iff)
next
  show "chosen_code rnd form \<noteq> []"
    by (rule chosen_code_nonempty)
next
  assume "upload_file ip sf rnd clock form w = (Inr (Short_url u), w')"
  from upload_file_accepted [OF this]
  show "u = make_short ip (chosen_code rnd form)"
    and "\<exists>tgt. db w' = save_mapping clock (chosen_code rnd form) tgt (db w) \<and>
               get_row (db w') (chosen_code rnd form) =
                 Some \<lparr>code = chosen_code rnd form, target = tgt,
                       created_at = py_int clock, hits = 0\<rparr>"
    by (auto simp: get_row_save_mapping_same)
next
  assume "upload_file ip sf rnd clock form w = (Inr (Error_message m), w')"
  then show "w' = w"
    by (rule upload_file_refused)
next
  have "[] \<notin> code ` set (db (startup loc fs))"
    by (simp add: startup_def init_db_def db_def)
  then show "[] \<notin> code ` set (db (run ip sf es (startup loc fs)))"
    by (rule empty_key_run)
qed

theorem upload_file_key_witness:
  "form_get (code_field form2) = ''  '' \<and> isspace CHR '' ''
   \<and> chosen_code (\<lambda>i. 1 / 2) form2 = ''FFFFFF''
   \<and> form_get (code_field form1) = '' abc123 '' \<and> \<not> isspace CHR ''a''
   \<and> chosen_code (\<lambda>i. 1 / 2) form1 = ''abc123''
   \<and> upload_file ''127.0.0.1'' (\<lambda>n. n) (\<lambda>i. 1 / 2) 1700 form2 (startup locate0 {}) =
       (Inr (Short_url ''http://127.0.0.1:5050/FFFFFF''),
        \<lparr>store = Some
           [\<lparr>code = ''FFFFFF'', target = ''/uploads/1700_a.png'', created_at = 1700,
             hits = 0\<rparr>],
         locate = locate0, files = {''/app/static/uploads/1700_a.png''}, remove_calls = []\<rparr>)"
proof -
  have field2: "form_get (code_field form2) = ''  ''"
    by (simp add: form2_def form_get_def)
  have field1: "form_get (code_field form1) = '' abc123 ''"
    by (simp add: form1_def form_get_def)
  have space: "isspace CHR '' ''" and letter: "\<not> isspace CHR ''a''"
    by (simp_all add: isspace_def)
  have blank: "\<forall>ch \<in> set (form_get (code_field form2)). isspace ch"
    by (simp add: field2 space)
  have named: "\<not> (\<forall>ch \<in> set (form_get (code_field form1)). isspace ch)"
    by (simp add: field1 letter)
  have stripped: "strip (form_get (code_field form1)) = ''abc123''"
    by (simp add: form1_def form_get_def strip_def isspace_def)
  from upload_file_key [of "\<lambda>i. 1 / 2" form2] blank
  have "chosen_code (\<lambda>i. 1 / 2) form2 = generate_code (\<lambda>i. 1 / 2) 6"
    by blast
  moreover from upload_file_key [of "\<lambda>i. 1 / 2" form1] named
  have "chosen_code (\<lambda>i. 1 / 2) form1 = strip (form_get (code_field form1))"
    by blast
  ultimately show ?thesis
    using field1 field2 space letter stripped generate_code_half upload_form2 by simp
qed

section \<open>No lost update\<close>

lemma get_row_code: "get_row tb c = Some r \<Longrightarrow> code r = c"
  by (simp add: get_row_SomeD)

lemma get_row_bump_add:
  "get_row (map (\<lambda>r. if code r = c' then r\<lparr>hits := hits r + 1\<rparr> else r) tb) c =
     map_option (\<lambda>r. r\<lparr>hits := hits r + (if c' = c then 1 else 0)\<rparr>) (get_row tb c)"
proof (cases "get_row tb c")
  case None
  then show ?thesis
    by (simp add: get_row_bump)
next
  case (Some r)
  with get_row_code [OF Some] show ?thesis
    by (auto simp: get_row_bump)
qed

lemma hit_counted_deliver: "hit_counted (t\<lparr>reached := Returned (Inr (deliver tgt))\<rparr>)"
  by (simp add: hit_counted_def deliver_def)

lemma thread_step_hits:
  assumes "well_started t" and "thread_step t w = (t', w')"
  shows "get_row (db w') c =
           map_option
             (\<lambda>r. r\<lparr>hits := hits r + ((if req_code t' = c \<and> hit_counted t' then 1 else 0) -
                                        (if req_code t = c \<and> hit_counted t then 1 else 0))\<rparr>)
             (get_row (db w) c)"
    and "well_started t'" and "req_code t' = req_code t"
    and "req_clock t' = req_clock t" and "req_fails t' = req_fails t"
proof -
  have id: "map_option (\<lambda>r. r) x = x" for x :: "row option"
    by (cases x) simp_all
  show "get_row (db w') c =
           map_option
             (\<lambda>r. r\<lparr>hits := hits r + ((if req_code t' = c \<and> hit_counted t' then 1 else 0) -
                                        (if req_code t = c \<and> hit_counted t then 1 else 0))\<rparr>)
             (get_row (db w) c)"
  proof (cases "reached t")
    case Not_started
    with assms(2) have "w' = w" and "\<not> hit_counted t'" and "\<not> hit_counted t"
      and "req_code t' = req_code t"
      by (auto simp: thread_step_def hit_counted_def split: option.splits if_splits)
    then show ?thesis
      by (simp add: id)
  next
    case (Selected r1)
    with assms(1) have c1: "code r1 = req_code t"
      by (simp add: well_started_def)
    from Selected have before: "\<not> hit_counted t"
      by (simp add: hit_counted_def)
    show ?thesis
    proof (cases "store w")
      case None
      with Selected assms(2) have "w' = w" and "\<not> hit_counted t'"
        by (auto simp: thread_step_def hit_counted_def)
      with before show ?thesis
        by (simp add: id)
    next
      case (Some tb)
      show ?thesis
      proof (cases "req_fails t")
        case True
        with Selected Some assms(2) have "w' = w" and "\<not> hit_counted t'"
          by (auto simp: thread_step_def hit_counted_def update_hits_def)
        with before show ?thesis
          by (simp add: id)
      next
        case False
        with Selected Some assms(2)
        have t': "t' = t\<lparr>reached := Returned (Inr (deliver (target r1)))\<rparr>"
          and w': "w' = w\<lparr>store := Some (map (\<lambda>r. if code r = code r1 then r\<lparr>hits := hits r + 1\<rparr> else r) tb)\<rparr>"
          by (auto simp: thread_step_def update_hits_def)
        have after: "hit_counted t'" and same: "req_code t' = req_code t"
          unfolding t' by (simp_all add: hit_counted_deliver)
        from Some have "db w = tb"
          by (rule db_Some)
        then show ?thesis
          using before after same c1 by (simp add: w' get_row_bump_add)
      qed
    qed
  next
    case (Returned x)
    with assms(2) have "w' = w" and "t' = t"
      by (auto simp: thread_step_def)
    then show ?thesis
      by (simp add: id)
  qed
  show "well_started t'" "req_code t' = req_code t" "req_clock t' = req_clock t"
    "req_fails t' = req_fails t"
    using assms
    by (auto simp: thread_step_def well_started_def update_hits_def
        split: pc.splits option.splits if_splits dest: get_row_code)
qed

lemma count_update:
  "i < length xs \<Longrightarrow>
   int (length (filter P (xs[i := y]))) =
     int (length (filter P xs)) + ((if P y then 1 else 0) - (if P (xs ! i) then 1 else 0))"
proof (induction xs arbitrary: i)
  case Nil
  then show ?case by simp
next
  case (Cons x xs)
  show ?case
  proof (cases i)
    case 0
    then show ?thesis by simp
  next
    case (Suc n)
    with Cons.prems have "n < length xs" by simp
    from Cons.IH [OF this] Suc show ?thesis
      by (cases "P x") simp_all
  qed
qed

lemma hits_counted_update:
  "i < length ts \<Longrightarrow>
   hits_counted c (ts[i := t']) =
     hits_counted c ts + ((if req_code t' = c \<and> hit_counted t' then 1 else 0) -
                          (if req_code (ts ! i) = c \<and> hit_counted (ts ! i) then 1 else 0))"
  unfolding hits_counted_def by (rule count_update)

lemma add_hits_twice:
  "map_option (\<lambda>r. r\<lparr>hits := hits r + a\<rparr>) (map_option (\<lambda>r. r\<lparr>hits := hits r + b\<rparr>) x) =
   map_option (\<lambda>r. r\<lparr>hits := hits r + (b + a)\<rparr>) x" for x :: "row option"
  by (cases x) simp_all

lemma interleave_hits:
  assumes "\<forall>t \<in> set ts. well_started t"
  shows "get_row (db (snd (interleave sched ts w))) c =
           map_option
             (\<lambda>r. r\<lparr>hits := hits r + (hits_counted c (fst (interleave sched ts w)) -
                                        hits_counted c ts)\<rparr>)
             (get_row (db w) c)"
  using assms
proof (induction sched arbitrary: ts w)
  case Nil
  show ?case
    by (cases "get_row (db w) c") simp_all
next
  case (Cons i sched)
  show ?case
  proof (cases "i < length ts")
    case False
    with Cons show ?thesis by simp
  next
    case True
    obtain t' w' where st: "thread_step (ts ! i) w = (t', w')"
      by (cases "thread_step (ts ! i) w")
    from True Cons.prems have ok: "well_started (ts ! i)"
      by simp
    note one = thread_step_hits [OF ok st]
    have "\<forall>t \<in> set (ts[i := t']). well_started t"
      using Cons.prems one(2) by (auto dest: subsetD [OF set_update_subset_insert])
    from Cons.IH [OF this, of w']
    have IH: "get_row (db (snd (interleave sched (ts[i := t']) w'))) c =
        map_option
          (\<lambda>r. r\<lparr>hits := hits r + (hits_counted c (fst (interleave sched (ts[i := t']) w')) -
                                     hits_counted c (ts[i := t']))\<rparr>)
          (get_row (db w') c)" .
    let ?a = "(if req_code t' = c \<and> hit_counted t' then 1 else 0) -
              (if req_code (ts ! i) = c \<and> hit_counted (ts ! i) then 1 else (0::int))"
    let ?H = "hits_counted c (fst (interleave sched (ts[i := t']) w'))"
    have e1: "get_row (db w') c = map_option (\<lambda>r. r\<lparr>hits := hits r + ?a\<rparr>) (get_row (db w) c)"
      by (rule one(1))
    have e2: "hits_counted c (ts[i := t']) = hits_counted c ts + ?a"
      using True by (rule hits_counted_update)
    have run: "interleave (i # sched) ts w = interleave sched (ts[i := t']) w'"
      using True st by simp
    have "get_row (db (snd (interleave sched (ts[i := t']) w'))) c =
        map_option (\<lambda>r. r\<lparr>hits := hits r + (?H - hits_counted c (ts[i := t']))\<rparr>)
          (map_option (\<lambda>r. r\<lparr>hits := hits r + ?a\<rparr>) (get_row (db w) c))"
      using IH by (simp only: e1)
    also have "\<dots> = map_option
          (\<lambda>r. r\<lparr>hits := hits r + (?a + (?H - hits_counted c (ts[i := t'])))\<rparr>)
          (get_row (db w) c)"
      by (rule add_hits_twice)
    also have "?a + (?H - hits_counted c (ts[i := t'])) = ?H - hits_counted c ts"
      using e2 by arith
    finally show ?thesis
      by (simp only: run)
  qed
qed

lemma thread_step_left:
  assumes "thread_step t w = (t', w')"
  shows "statements_left t' \<le> statements_left t - 1"
  using assms
  by (auto simp: thread_step_def statements_left_def
      split: pc.splits option.splits if_splits sum.splits)

lemma interleave_length: "length (fst (interleave sched ts w)) = length ts"
proof (induction sched arbitrary: ts w)
  case Nil
  then show ?case by simp
next
  case (Cons i sched)
  show ?case
  proof (cases "i < length ts")
    case False
    with Cons show ?thesis by simp
  next
    case True
    obtain t' w' where st: "thread_step (ts ! i) w = (t', w')"
      by (cases "thread_step (ts ! i) w")
    with True Cons.IH [of "ts[i := t']" w'] show ?thesis
      by simp
  qed
qed

lemma interleave_codes: "map req_code (fst (interleave sched ts w)) = map req_code ts"
proof (induction sched arbitrary: ts w)
  case Nil
  then show ?case by simp
next
  case (Cons i sched)
  show ?case
  proof (cases "i < length ts")
    case False
    with Cons show ?thesis by simp
  next
    case True
    obtain t' w' where st: "thread_step (ts ! i) w = (t', w')"
      by (cases "thread_step (ts ! i) w")
    have "req_code t' = req_code (ts ! i)"
      using st
      by (auto simp: thread_step_def split: pc.splits option.splits if_splits sum.splits)
    then have "map req_code (ts[i := t']) = map req_code ts"
      by (simp add: map_update list_update_same_conv True)
    with True st Cons.IH [of "ts[i := t']" w'] show ?thesis
      by simp
  qed
qed

lemma interleave_left:
  "i < length ts \<Longrightarrow>
   statements_left (fst (interleave sched ts w) ! i) \<le> statements_left (ts ! i) - count_list sched i"
proof (induction sched arbitrary: ts w)
  case Nil
  then show ?case by simp
next
  case (Cons j sched)
  show ?case
  proof (cases "j < length ts")
    case False
    with Cons.prems have "j \<noteq> i" by auto
    with False Cons.IH [OF Cons.prems, of w] show ?thesis
      by simp
  next
    case True
    obtain t' w' where st: "thread_step (ts ! j) w = (t', w')"
      by (cases "thread_step (ts ! j) w")
    from Cons.prems have len: "i < length (ts[j := t'])"
      by simp
    note IH = Cons.IH [OF len, of w']
    show ?thesis
    proof (cases "j = i")
      case True
      with thread_step_left [OF st] Cons.prems
      have "statements_left (ts[j := t'] ! i) \<le> statements_left (ts ! i) - 1"
        by simp
      with IH True \<open>j < length ts\<close> st show ?thesis
        by simp
    next
      case False
      then have "ts[j := t'] ! i = ts ! i"
        by simp
      with IH False True st show ?thesis
        by simp
    qed
  qed
qed

lemma thread_step_on_course:
  assumes "get_row (db w) (code r) = Some r0" and "same_entry r r0"
    and "well_started t" and "on_course r t" and "thread_step t w = (t', w')"
  shows "on_course r t'"
    and "\<exists>r1. get_row (db w') (code r) = Some r1 \<and> same_entry r r1"
proof -
  from assms(1) obtain tb where tb: "store w = Some tb" "db w = tb"
    by (rule store_of_get_row)
  from thread_step_hits(1) [OF assms(3,5), of "code r"] assms(1,2)
  show "\<exists>r1. get_row (db w') (code r) = Some r1 \<and> same_entry r r1"
    by (auto simp: same_entry_def)
  have same: "req_code t' = req_code t" "req_clock t' = req_clock t" "req_fails t' = req_fails t"
    using thread_step_hits(3,4,5) [OF assms(3,5)] by simp_all
  show "on_course r t'"
  proof (cases "req_code t = code r")
    case False
    with same show ?thesis
      by (simp add: on_course_def)
  next
    case True
    with assms(4) have ok: "\<not> req_fails t"
      and live: "\<not> req_clock t - real_of_int (created_at r) > real_of_int DELETE_AFTER_SECONDS"
      by (simp_all add: on_course_def)
    show ?thesis
    proof (cases "reached t")
      case Not_started
      with assms(1,2,5) tb True live have "t' = t\<lparr>reached := Selected r0\<rparr>"
        by (auto simp: thread_step_def same_entry_def)
      with assms(2) True ok live show ?thesis
        by (simp add: on_course_def)
    next
      case (Selected r1)
      with assms(4) True have r1: "same_entry r r1"
        by (simp add: on_course_def)
      from Selected assms(5) tb ok
      have "t' = t\<lparr>reached := Returned (Inr (deliver (target r1)))\<rparr>"
        by (auto simp: thread_step_def update_hits_def)
      with r1 True ok live show ?thesis
        by (simp add: on_course_def same_entry_def)
    next
      case (Returned x)
      with assms(5) have "t' = t"
        by (auto simp: thread_step_def)
      with assms(4) show ?thesis by simp
    qed
  qed
qed

lemma interleave_on_course:
  assumes "get_row (db w) (code r) = Some r0" and "same_entry r r0"
    and "\<forall>t \<in> set ts. well_started t \<and> on_course r t"
  shows "\<forall>t \<in> set (fst (interleave sched ts w)). on_course r t"
  using assms
proof (induction sched arbitrary: ts w r0)
  case Nil
  then show ?case by simp
next
  case (Cons i sched)
  show ?case
  proof (cases "i < length ts")
    case False
    with Cons.IH [OF Cons.prems] show ?thesis by simp
  next
    case True
    obtain t' w' where st: "thread_step (ts ! i) w = (t', w')"
      by (cases "thread_step (ts ! i) w")
    from True Cons.prems(3) have ti: "well_started (ts ! i)" "on_course r (ts ! i)"
      by simp_all
    from thread_step_on_course [OF Cons.prems(1,2) ti st]
    obtain r1 where r1: "get_row (db w') (code r) = Some r1" "same_entry r r1"
      and t': "on_course r t'"
      by blast
    have "well_started t'"
      by (rule thread_step_hits(2) [OF ti(1) st])
    with t' Cons.prems(3) have "\<forall>t \<in> set (ts[i := t']). well_started t \<and> on_course r t"
      by (auto dest: subsetD [OF set_update_subset_insert])
    from Cons.IH [OF r1 this] True st show ?thesis
      by simp
  qed
qed

lemma thread_alone:
  assumes "reached t = Not_started"
  shows "interleave [0, 0] [t] w =
           ([t\<lparr>reached := Returned
                  (case redirect_code (req_fails t) (req_clock t) (req_code t) w of
                     Inl e \<Rightarrow> Inl e
                   | Inr (resp, w') \<Rightarrow> Inr resp)\<rparr>],
            case redirect_code (req_fails t) (req_clock t) (req_code t) w of
              Inl e \<Rightarrow> w
            | Inr (resp, w') \<Rightarrow> w')"
  using assms
  by (auto simp: thread_step_def redirect_code_def update_hits_def
      split: option.splits sum.splits)

text \<open>
  C9. Lookups run at the same time, interleaved statement by statement under any
  schedule, all threads not yet started:
  \<^item> a thread that runs alone for its two statements does what \<^verbatim>\<open>redirect_code\<close> does;
  \<^item> after the schedule, whether or not it lets every thread finish, the counter of
    every code has risen by exactly the number of threads that looked that code up and
    have returned with its target: no update is lost, for the same or different codes;
  \<^item> if the row of a code \<open>c\<close> is there, no thread that looks \<open>c\<close> up has an update that
    raises or takes its clock reading past the time to live of the row, and the
    schedule gives every thread its two statements, then every such thread returns with
    the target and the counter of \<open>c\<close> has risen by the number of these threads: \<open>N\<close>
    successful lookups of a fresh entry leave \<open>hits = N\<close>.
\<close>

theorem no_lost_update:
  assumes "\<forall>t \<in> set ts. reached t = Not_started"
  shows "(\<forall>t \<in> set ts.
            interleave [0, 0] [t] w =
              ([t\<lparr>reached := Returned
                     (case redirect_code (req_fails t) (req_clock t) (req_code t) w of
                        Inl e \<Rightarrow> Inl e
                      | Inr (resp, w') \<Rightarrow> Inr resp)\<rparr>],
               case redirect_code (req_fails t) (req_clock t) (req_code t) w of
                 Inl e \<Rightarrow> w
               | Inr (resp, w') \<Rightarrow> w'))
       \<and> get_row (db (snd (interleave sched ts w))) c =
           map_option
             (\<lambda>r. r\<lparr>hits := hits r + hits_counted c (fst (interleave sched ts w))\<rparr>)
             (get_row (db w) c)
       \<and> (get_row (db w) c = Some r \<and>
            (\<forall>t \<in> set ts. req_code t = c \<longrightarrow>
               \<not> req_fails t \<and>
               \<not> req_clock t - real_of_int (created_at r) > real_of_int DELETE_AFTER_SECONDS) \<and>
            (\<forall>i < length ts. 2 \<le> count_list sched i) \<longrightarrow>
            get_row (db (snd (interleave sched ts w))) c =
              Some (r\<lparr>hits := hits r + int (length (filter (\<lambda>t. req_code t = c) ts))\<rparr>) \<and>
            (\<forall>t \<in> set (fst (interleave sched ts w)).
               req_code t = c \<longrightarrow> reached t = Returned (Inr (deliver (target r)))))"
proof -
  have started: "\<forall>t \<in> set ts. well_started t"
    using assms by (simp add: well_started_def)
  have none: "hits_counted c ts = 0"
  proof -
    have "filter (\<lambda>t. req_code t = c \<and> hit_counted t) ts = []"
      using assms by (auto simp: filter_empty_conv hit_counted_def)
    then show ?thesis
      by (simp add: hits_counted_def)
  qed
  let ?ts' = "fst (interleave sched ts w)"
  from interleave_hits [OF started, of sched w c]
  have acc: "get_row (db (snd (interleave sched ts w))) c =
           map_option (\<lambda>r. r\<lparr>hits := hits r + hits_counted c ?ts'\<rparr>) (get_row (db w) c)"
    by (simp add: none)
  have alone: "\<forall>t \<in> set ts.
            interleave [0, 0] [t] w =
              ([t\<lparr>reached := Returned
                     (case redirect_code (req_fails t) (req_clock t) (req_code t) w of
                        Inl e \<Rightarrow> Inl e
                      | Inr (resp, w') \<Rightarrow> Inr resp)\<rparr>],
               case redirect_code (req_fails t) (req_clock t) (req_code t) w of
                 Inl e \<Rightarrow> w
               | Inr (resp, w') \<Rightarrow> w')"
  proof (rule ballI)
    fix t assume "t \<in> set ts"
    with assms have "reached t = Not_started"
      by simp
    then show "interleave [0, 0] [t] w =
              ([t\<lparr>reached := Returned
                     (case redirect_code (req_fails t) (req_clock t) (req_code t) w of
                        Inl e \<Rightarrow> Inl e
                      | Inr (resp, w') \<Rightarrow> Inr resp)\<rparr>],
               case redirect_code (req_fails t) (req_clock t) (req_code t) w of
                 Inl e \<Rightarrow> w
               | Inr (resp, w') \<Rightarrow> w')"
      by (rule thread_alone)
  qed
  have all: "get_row (db (snd (interleave sched ts w))) c =
              Some (r\<lparr>hits := hits r + int (length (filter (\<lambda>t. req_code t = c) ts))\<rparr>) \<and>
            (\<forall>t \<in> set ?ts'. req_code t = c \<longrightarrow> reached t = Returned (Inr (deliver (target r))))"
    if row: "get_row (db w) c = Some r"
      and good: "\<forall>t \<in> set ts. req_code t = c \<longrightarrow>
               \<not> req_fails t \<and>
               \<not> req_clock t - real_of_int (created_at r) > real_of_int DELETE_AFTER_SECONDS"
      and fair: "\<forall>i < length ts. 2 \<le> count_list sched i"
  proof -
    from row have cr: "code r = c"
      by (rule get_row_code)
    have course: "\<forall>t \<in> set ts. well_started t \<and> on_course r t"
      using good assms started by (auto simp: on_course_def cr)
    have row': "get_row (db w) (code r) = Some r"
      using row cr by simp
    have "same_entry r r"
      by (simp add: same_entry_def)
    from interleave_on_course [OF row' this course]
    have oc: "\<forall>t \<in> set ?ts'. on_course r t" .
    have finished: "reached t = Returned (Inr (deliver (target r)))"
      if t: "t \<in> set ?ts'" and code: "req_code t = c" for t
    proof -
      from t obtain i where i: "i < length ?ts'" "?ts' ! i = t"
        by (auto simp: in_set_conv_nth)
      then have il: "i < length ts"
        by (simp add: interleave_length)
      from fair il have "2 \<le> count_list sched i"
        by simp
      with interleave_left [OF il, of sched w] i(2)
      have "statements_left t \<le> statements_left (ts ! i) - 2"
        by simp
      moreover from assms il have "statements_left (ts ! i) = 2"
        by (simp add: statements_left_def)
      ultimately have "statements_left t = 0"
        by simp
      then obtain x where x: "reached t = Returned x"
        by (cases "reached t") (simp_all add: statements_left_def)
      from oc t code cr x show ?thesis
        by (auto simp: on_course_def)
    qed
    have "filter (\<lambda>t. req_code t = c \<and> hit_counted t) ?ts' = filter (\<lambda>t. req_code t = c) ?ts'"
      by (rule filter_cong) (auto simp: hit_counted_def finished deliver_def)
    then have "hits_counted c ?ts' = int (length (filter (\<lambda>t. req_code t = c) ?ts'))"
      by (simp add: hits_counted_def)
    also have "length (filter (\<lambda>t. req_code t = c) ?ts') =
        length (filter (\<lambda>x. x = c) (map req_code ?ts'))"
      by (simp add: filter_map comp_def)
    also have "\<dots> = length (filter (\<lambda>t. req_code t = c) ts)"
      by (simp add: interleave_codes filter_map comp_def)
    finally have "hits_counted c ?ts' = int (length (filter (\<lambda>t. req_code t = c) ts))" .
    with acc row finished show ?thesis
      by simp
  qed
  from alone acc all show ?thesis
    by blast
qed

theorem no_lost_update_witness:
  "get_row (db w0) ''abc123'' =
     Some \<lparr>code = ''abc123'', target = ''https://example.com'', created_at = 0, hits = 1\<rparr>
   \<and> get_row (db (snd (interleave [0, 1, 1, 0]
         [\<lparr>req_code = ''abc123'', req_clock = 599, req_fails = False, reached = Not_started\<rparr>,
          \<lparr>req_code = ''abc123'', req_clock = 599, req_fails = False, reached = Not_started\<rparr>]
         w0))) ''abc123'' =
     Some \<lparr>code = ''abc123'', target = ''https://example.com'', created_at = 0, hits = 3\<rparr>"
proof -
  let ?t = "\<lparr>req_code = ''abc123'', req_clock = 599, req_fails = False, reached = Not_started\<rparr>"
  let ?r = "\<lparr>code = ''abc123'', target = ''https://example.com'', created_at = 0, hits = 1\<rparr>"
  have start: "\<forall>t \<in> set [?t, ?t]. reached t = Not_started"
    by simp
  have row: "get_row (db w0) ''abc123'' = Some ?r"
    by (simp add: get_row_def db_w0)
  have good: "\<forall>t \<in> set [?t, ?t]. req_code t = ''abc123'' \<longrightarrow>
               \<not> req_fails t \<and>
               \<not> req_clock t - real_of_int (created_at ?r) > real_of_int DELETE_AFTER_SECONDS"
    by (simp add: DELETE_AFTER_SECONDS_def)
  have fair: "\<forall>i < length [?t, ?t]. 2 \<le> count_list [0, 1, 1, 0] i"
    by (auto simp: less_Suc_eq)
  from no_lost_update [OF start, of w0 "[0, 1, 1, 0]" "''abc123''" ?r] row good fair
  have "get_row (db (snd (interleave [0, 1, 1, 0] [?t, ?t] w0))) ''abc123'' =
      Some (?r\<lparr>hits := hits ?r + int (length (filter (\<lambda>t. req_code t = ''abc123'') [?t, ?t]))\<rparr>)"
    by blast
  moreover have "?r\<lparr>hits := hits ?r + int (length (filter (\<lambda>t. req_code t = ''abc123'') [?t, ?t]))\<rparr> =
      \<lparr>code = ''abc123'', target = ''https://example.com'', created_at = 0, hits = 3\<rparr>"
    by simp
  ultimately show ?thesis
    using row by (simp only:)
qed

end
